theory Spec2Isabelle
  imports Complex_Main
begin

section \<open>Exceptions\<close>

text \<open>
  Every handler of the servers is \<^verbatim>\<open>except Exception\<close>, so the model only needs to know
  where an exception was raised.  \<open>LoadError\<close> is a failure of \<^verbatim>\<open>YOLO(MODEL_PATH)\<close> (the
  specification calls it ModelUnavailable), \<open>InferError\<close> a failure of the detector call,
  \<open>CvError\<close> a \<^verbatim>\<open>cv2.error\<close>, \<open>NumpyValueError\<close> a shape mismatch in a numpy slice
  assignment, \<open>FitzError\<close> a failure of \<^verbatim>\<open>fitz.open\<close> or of rendering a page,
  \<open>SklearnError\<close> a failure inside the vectorizer or classifier and \<open>IndexError\<close> the
  failure of \<^verbatim>\<open>[0]\<close> on an empty sequence.
\<close>

datatype error =
    LoadError | InferError | CvError | NumpyValueError | FitzError | SklearnError | IndexError

section \<open>The URL classifier (\<^verbatim>\<open>ml_api_server.py\<close>, \<^verbatim>\<open>unified_pii_server.py\<close>)\<close>

text \<open>
  The vectorizer and the classifier are joblib objects.  The model keeps the calls that
  \<^verbatim>\<open>classify_url\<close> makes on them: \<^verbatim>\<open>transform\<close>, \<^verbatim>\<open>predict\<close> and, when the attribute
  exists (\<^verbatim>\<open>hasattr\<close>), \<^verbatim>\<open>predict_proba\<close>.  A label is represented by its \<^verbatim>\<open>str()\<close>.
  The globals \<^verbatim>\<open>vectorizer\<close> and \<^verbatim>\<open>model\<close> are \<open>None\<close> until \<^verbatim>\<open>load_models\<close> succeeds.
\<close>

record 'x vectorizer =
  transform :: "string list \<Rightarrow> error + 'x"

record 'x classifier =
  predict :: "'x \<Rightarrow> error + string list"
  predict_proba :: "('x \<Rightarrow> error + real list list) option"

text \<open>
  The \<^verbatim>\<open>reason\<close> strings of the source carry the label or the exception text behind a
  fixed prefix; the datatype keeps which prefix was chosen and what follows it.
\<close>

datatype reason =
    NotLoaded                \<comment> \<open>\<^verbatim>\<open>"Model not loaded"\<close> / \<^verbatim>\<open>"ML model not loaded"\<close>\<close>
  | ErrorReason error        \<comment> \<open>\<^verbatim>\<open>f"Error: {str(e)}"\<close>\<close>
  | SafeReason string        \<comment> \<open>\<^verbatim>\<open>f"SAFE - Legitimate government website: {prediction}"\<close>\<close>
  | UnsafeReason string      \<comment> \<open>\<^verbatim>\<open>f"UNSAFE - Non-government website: {prediction}"\<close>\<close>

record verdict =
  isGovernment :: bool
  confidence :: real
  isUnsafe :: bool
  reason :: reason
  classification :: "string option"   \<comment> \<open>the key is absent from the failure records\<close>

definition lower_char :: "char \<Rightarrow> char" where
  "lower_char c =
     (case map_of (zip ''ABCDEFGHIJKLMNOPQRSTUVWXYZ'' ''abcdefghijklmnopqrstuvwxyz'') c of
        Some l \<Rightarrow> l
      | None \<Rightarrow> c)"

definition lower :: "string \<Rightarrow> string" where
  "lower s = map lower_char s"

text \<open>\<open>contains sub s\<close> is Python's \<^verbatim>\<open>sub in s\<close> on strings.\<close>

fun contains :: "string \<Rightarrow> string \<Rightarrow> bool" where
  "contains sub [] = (sub = [])"
| "contains sub (c # cs) = (take (length sub) (c # cs) = sub \<or> contains sub cs)"

text \<open>Python's \<^verbatim>\<open>max\<close> of a non-empty sequence.\<close>

definition py_max :: "real list \<Rightarrow> real" where
  "py_max xs = fold max (tl xs) (hd xs)"

text \<open>The two literal failure records of \<^verbatim>\<open>classify_url\<close>.\<close>

definition failure :: "reason \<Rightarrow> verdict" where
  "failure why =
     \<lparr>isGovernment = False, confidence = 0.0, isUnsafe = True, reason = why,
      classification = None\<rparr>"

text \<open>
  The inner \<^verbatim>\<open>try ... except: pass\<close> around \<^verbatim>\<open>predict_proba\<close>: the default \<open>0.8\<close> stays
  when the attribute is missing, when the call raises, when \<^verbatim>\<open>[0]\<close> fails and when
  \<^verbatim>\<open>max\<close> is given an empty row.
\<close>

definition get_confidence :: "'x classifier \<Rightarrow> 'x \<Rightarrow> real" where
  "get_confidence model X_new =
     (case predict_proba model of
        None \<Rightarrow> 0.8
      | Some pp \<Rightarrow>
          (case pp X_new of
             Inl e \<Rightarrow> 0.8
           | Inr [] \<Rightarrow> 0.8
           | Inr (proba # rest) \<Rightarrow> if proba = [] then 0.8 else py_max proba))"

definition is_government_label :: "string \<Rightarrow> bool" where
  "is_government_label prediction =
     (let pred_str = lower prediction
      in contains ''government'' pred_str \<or> contains ''authorized'' pred_str \<or>
         contains ''gov'' pred_str \<or> contains ''legitimate'' pred_str)"

definition classify_url :: "'x vectorizer option \<Rightarrow> 'x classifier option \<Rightarrow> string \<Rightarrow> verdict" where
  "classify_url vectorizer model url =
     (case (model, vectorizer) of
        (Some m, Some v) \<Rightarrow>
          (case transform v [url] of
             Inl e \<Rightarrow> failure (ErrorReason e)
           | Inr X_new \<Rightarrow>
               (case predict m X_new of
                  Inl e \<Rightarrow> failure (ErrorReason e)
                | Inr [] \<Rightarrow> failure (ErrorReason IndexError)
                | Inr (prediction # rest) \<Rightarrow>
                    (let conf = get_confidence m X_new;
                         is_government = is_government_label prediction;
                         is_unsafe = \<not> is_government;
                         why = (if is_government then SafeReason prediction
                                else UnsafeReason prediction)
                     in \<lparr>isGovernment = is_government, confidence = conf,
                         isUnsafe = is_unsafe, reason = why,
                         classification = Some prediction\<rparr>)))
      | _ \<Rightarrow> failure NotLoaded)"

subsection \<open>Concrete classifiers used in the examples\<close>

definition length_vectorizer :: "nat vectorizer" where
  "length_vectorizer = \<lparr>transform = (\<lambda>urls. Inr (length (concat urls)))\<rparr>"

definition failing_vectorizer :: "nat vectorizer" where
  "failing_vectorizer = \<lparr>transform = (\<lambda>urls. Inl SklearnError)\<rparr>"

definition proba_raises :: "nat \<Rightarrow> error + real list list" where
  "proba_raises X = Inl SklearnError"

definition government_classifier :: "nat classifier" where
  "government_classifier =
     \<lparr>predict = (\<lambda>X. Inr [''government'']), predict_proba = Some proba_raises\<rparr>"

definition non_government_classifier :: "nat classifier" where
  "non_government_classifier =
     \<lparr>predict = (\<lambda>X. Inr [''Non-Government'']), predict_proba = None\<rparr>"

section \<open>Pages as pixel arrays\<close>

text \<open>
  A page is the numpy array that \<^verbatim>\<open>cv2.imread\<close> or the PDF renderer returns: a list of
  rows, each a list of pixels (a pixel stands for the three channel bytes).  \<open>shape0\<close> and
  \<open>shape1\<close> are \<^verbatim>\<open>img.shape[0]\<close> (height) and \<^verbatim>\<open>img.shape[1]\<close> (width); an array with no
  rows is given width 0, which no computation below can tell from any other width.  A
  numpy array has rows of one length: \<open>rectangular\<close>.  \<open>img_size\<close> is \<^verbatim>\<open>.size\<close> up to the
  channel factor.
\<close>

type_synonym 'a image = "'a list list"

definition shape0 :: "'a image \<Rightarrow> nat" where
  "shape0 img = length img"

definition shape1 :: "'a image \<Rightarrow> nat" where
  "shape1 img = (case img of [] \<Rightarrow> 0 | row # rest \<Rightarrow> length row)"

definition rectangular :: "'a image \<Rightarrow> bool" where
  "rectangular img = list_all (\<lambda>row. length row = shape1 img) img"

definition img_size :: "'a image \<Rightarrow> nat" where
  "img_size img = sum_list (map length img)"

text \<open>
  Python's slice \<^verbatim>\<open>a:b\<close> on an axis of length \<open>n\<close>: a negative bound counts from the end,
  every bound is clamped to the axis, and a stop before the start selects nothing.
\<close>

definition slice_index :: "nat \<Rightarrow> int \<Rightarrow> nat" where
  "slice_index n i = (if i < 0 then nat (max 0 (i + int n)) else min n (nat i))"

definition slice_range :: "nat \<Rightarrow> int \<Rightarrow> int \<Rightarrow> nat \<times> nat" where
  "slice_range n a b =
     (let start = slice_index n a; stop = slice_index n b in (start, max start stop))"

definition crop :: "'a image \<Rightarrow> nat \<times> nat \<Rightarrow> nat \<times> nat \<Rightarrow> 'a image" where
  "crop img rows cols =
     map (\<lambda>row. take (snd cols - fst cols) (drop (fst cols) row))
       (take (snd rows - fst rows) (drop (fst rows) img))"

definition paste :: "'a image \<Rightarrow> nat \<times> nat \<Rightarrow> nat \<times> nat \<Rightarrow> 'a image \<Rightarrow> 'a image" where
  "paste img rows cols v =
     take (fst rows) img
     @ map2 (\<lambda>row vrow. take (fst cols) row @ vrow @ drop (snd cols) row)
         (take (snd rows - fst rows) (drop (fst rows) img)) v
     @ drop (snd rows) img"

text \<open>\<open>get_roi img y1 y2 x1 x2\<close> is the read \<^verbatim>\<open>img[y1:y2, x1:x2]\<close>.\<close>

definition get_roi :: "'a image \<Rightarrow> int \<Rightarrow> int \<Rightarrow> int \<Rightarrow> int \<Rightarrow> 'a image" where
  "get_roi img y1 y2 x1 x2 =
     crop img (slice_range (shape0 img) y1 y2) (slice_range (shape1 img) x1 x2)"

text \<open>
  \<open>set_roi img y1 y2 x1 x2 v\<close> is the assignment \<^verbatim>\<open>img[y1:y2, x1:x2] = v\<close>, returning the
  updated array.  A value of another shape than the slice is the \<^verbatim>\<open>ValueError\<close> of numpy
  (\<^verbatim>\<open>cv2.GaussianBlur\<close> returns an array of the shape of its input, so numpy's
  broadcasting of smaller values never applies).
\<close>

definition set_roi :: "'a image \<Rightarrow> int \<Rightarrow> int \<Rightarrow> int \<Rightarrow> int \<Rightarrow> 'a image \<Rightarrow> error + 'a image" where
  "set_roi img y1 y2 x1 x2 v =
     (let rows = slice_range (shape0 img) y1 y2; cols = slice_range (shape1 img) x1 x2
      in if length v = snd rows - fst rows \<and> list_all (\<lambda>vrow. length vrow = snd cols - fst cols) v
         then Inr (paste img rows cols v)
         else Inl NumpyValueError)"

section \<open>Detections, detectors and the model globals\<close>

text \<open>Python's \<^verbatim>\<open>int\<close> on a float truncates towards zero.\<close>

definition int_of_float :: "real \<Rightarrow> int" where
  "int_of_float x = (if 0 \<le> x then \<lfloor>x\<rfloor> else \<lceil>x\<rceil>)"

text \<open>
  One row of \<^verbatim>\<open>r.boxes\<close>: the corners \<^verbatim>\<open>xyxy\<close>, the confidence and the class id.  The
  three arrays that \<^verbatim>\<open>zip\<close> walks come from the same rows, so a list of rows is the
  zipped list.  A result \<^verbatim>\<open>r\<close> carries \<^verbatim>\<open>r.orig_img\<close> and \<^verbatim>\<open>r.boxes\<close> (which may be
  \<open>None\<close>).  A detector is the call \<^verbatim>\<open>model(img, save=False, conf=0.5)\<close>.
\<close>

record detection =
  xyxy :: "real \<times> real \<times> real \<times> real"
  conf :: real
  cls :: real

record 'a result =
  orig_img :: "'a image"
  boxes :: "detection list option"

type_synonym 'a detector = "'a image \<Rightarrow> error + 'a result list"

text \<open>
  The two weight files: \<^verbatim>\<open>MODEL_PATH\<close> of \<^verbatim>\<open>document_masking_server.py\<close> is
  \<^verbatim>\<open>AADHAR_MODEL_PATH\<close> of the unified server, \<^verbatim>\<open>MODEL_PATH\<close> of
  \<^verbatim>\<open>pan_masking_server.py\<close> is its \<^verbatim>\<open>PAN_MODEL_PATH\<close>.
\<close>

datatype model_path = AADHAR_MODEL_PATH | PAN_MODEL_PATH

text \<open>
  What the servers call in ultralytics and OpenCV: the constructor \<^verbatim>\<open>YOLO(path)\<close> and
  \<^verbatim>\<open>cv2.GaussianBlur(roi, (51, 51), 30)\<close>.
\<close>

record 'a env =
  YOLO :: "model_path \<Rightarrow> error + 'a detector"
  GaussianBlur :: "'a image \<Rightarrow> error + 'a image"

text \<open>
  \<^verbatim>\<open>load_model\<close> (and \<^verbatim>\<open>load_aadhar_model\<close>, \<^verbatim>\<open>load_pan_model\<close>): the global is passed in
  and returned; a failed construction re-raises and leaves the global \<open>None\<close>.
\<close>

definition load_model ::
  "'a env \<Rightarrow> model_path \<Rightarrow> 'a detector option \<Rightarrow> (error + 'a detector) \<times> 'a detector option" where
  "load_model env path model =
     (case model of
        None \<Rightarrow>
          (case YOLO env path of
             Inl e \<Rightarrow> (Inl e, None)
           | Inr m \<Rightarrow> (Inr m, Some m))
      | Some m \<Rightarrow> (Inr m, Some m))"

record 'a models =
  aadhar_model :: "'a detector option"
  pan_model :: "'a detector option"

definition load_aadhar_model :: "'a env \<Rightarrow> 'a models \<Rightarrow> (error + 'a detector) \<times> 'a models" where
  "load_aadhar_model env st =
     (case load_model env AADHAR_MODEL_PATH (aadhar_model st) of
        (res, m) \<Rightarrow> (res, st\<lparr>aadhar_model := m\<rparr>))"

definition load_pan_model :: "'a env \<Rightarrow> 'a models \<Rightarrow> (error + 'a detector) \<times> 'a models" where
  "load_pan_model env st =
     (case load_model env PAN_MODEL_PATH (pan_model st) of
        (res, m) \<Rightarrow> (res, st\<lparr>pan_model := m\<rparr>))"

section \<open>The masking engine with clipping (\<^verbatim>\<open>pan_masking_server.py\<close>, \<^verbatim>\<open>unified_pii_server.py\<close>)\<close>

text \<open>\<^verbatim>\<open>x1, y1, x2, y2 = map(int, box)\<close>\<close>

definition box_ints :: "detection \<Rightarrow> int \<times> int \<times> int \<times> int" where
  "box_ints d =
     (case xyxy d of (x1, y1, x2, y2) \<Rightarrow>
        (int_of_float x1, int_of_float y1, int_of_float x2, int_of_float y2))"

text \<open>The four lines under \<^verbatim>\<open># Ensure coordinates are within image bounds\<close>.\<close>

definition clip_box :: "'a image \<Rightarrow> detection \<Rightarrow> int \<times> int \<times> int \<times> int" where
  "clip_box img d =
     (case box_ints d of (x1, y1, x2, y2) \<Rightarrow>
        (max 0 x1, max 0 y1, min (int (shape1 img)) x2, min (int (shape0 img)) y2))"

text \<open>
  The loop over the boxes of one result.  The state of the loop is \<^verbatim>\<open>masked_img\<close> and
  \<^verbatim>\<open>detection_count\<close>; the bounds come from \<^verbatim>\<open>img\<close>.  An exception leaves the loop.
\<close>

fun mask_boxes ::
  "('a image \<Rightarrow> error + 'a image) \<Rightarrow> 'a image \<Rightarrow> detection list \<Rightarrow> 'a image \<times> nat
     \<Rightarrow> error + 'a image \<times> nat" where
  "mask_boxes blur img [] (masked_img, detection_count) = Inr (masked_img, detection_count)"
| "mask_boxes blur img (d # ds) (masked_img, detection_count) =
     (case clip_box img d of (x1, y1, x2, y2) \<Rightarrow>
        if x2 > x1 \<and> y2 > y1 then
          (let roi = get_roi masked_img y1 y2 x1 x2
           in if img_size roi > 0 then
                (case blur roi of
                   Inl e \<Rightarrow> Inl e
                 | Inr masked_roi \<Rightarrow>
                     (case set_roi masked_img y1 y2 x1 x2 masked_roi of
                        Inl e \<Rightarrow> Inl e
                      | Inr masked_img' \<Rightarrow>
                          mask_boxes blur img ds (masked_img', detection_count + 1)))
              else mask_boxes blur img ds (masked_img, detection_count))
        else mask_boxes blur img ds (masked_img, detection_count))"

text \<open>\<^verbatim>\<open>for r in results: if r.boxes is not None and len(r.boxes) > 0: ...\<close>\<close>

fun mask_results ::
  "('a image \<Rightarrow> error + 'a image) \<Rightarrow> 'a image \<Rightarrow> 'a result list \<Rightarrow> 'a image \<times> nat
     \<Rightarrow> error + 'a image \<times> nat" where
  "mask_results blur img [] acc = Inr acc"
| "mask_results blur img (r # rs) acc =
     (case boxes r of
        None \<Rightarrow> mask_results blur img rs acc
      | Some bs \<Rightarrow>
          if length bs > 0 then
            (case mask_boxes blur img bs acc of
               Inl e \<Rightarrow> Inl e
             | Inr acc' \<Rightarrow> mask_results blur img rs acc')
          else mask_results blur img rs acc)"

text \<open>
  The body of \<^verbatim>\<open>mask_pan_in_image\<close> and of the unified \<^verbatim>\<open>mask_pii_in_image\<close> after the
  model has been asked for: run the detector, mask a copy of the page, and on any
  exception (of the load, the detector, the blur or the assignment) return the page and 0.
  The second component is the state of the model globals after the load.
\<close>

definition detect_and_mask ::
  "'a env \<Rightarrow> 'a image \<Rightarrow> (error + 'a detector) \<times> 's \<Rightarrow> ('a image \<times> nat) \<times> 's" where
  "detect_and_mask env img loaded =
     (case loaded of
        (Inl e, st) \<Rightarrow> ((img, 0), st)
      | (Inr model, st) \<Rightarrow>
          (case model img of
             Inl e \<Rightarrow> ((img, 0), st)
           | Inr results \<Rightarrow>
               (case mask_results (GaussianBlur env) img results (img, 0) of
                  Inl e \<Rightarrow> ((img, 0), st)
                | Inr out \<Rightarrow> (out, st))))"

definition mask_pan_in_image ::
  "'a env \<Rightarrow> 'a detector option \<Rightarrow> 'a image \<Rightarrow> ('a image \<times> nat) \<times> 'a detector option" where
  "mask_pan_in_image env model img = detect_and_mask env img (load_model env PAN_MODEL_PATH model)"

definition mask_pii_in_image ::
  "'a env \<Rightarrow> 'a models \<Rightarrow> 'a image \<Rightarrow> string \<Rightarrow> ('a image \<times> nat) \<times> 'a models" where
  "mask_pii_in_image env st img model_type =
     detect_and_mask env img
       (if model_type = ''aadhar'' then load_aadhar_model env st else load_pan_model env st)"

section \<open>The masking engine of \<^verbatim>\<open>document_masking_server.py\<close>\<close>

text \<open>
  This \<^verbatim>\<open>mask_pii_in_image\<close> slices with the detector's coordinates as they are, counts
  \<^verbatim>\<open>len(boxes)\<close> before the loop and returns inside the loop over the results, that is
  after the first result.
\<close>

fun doc_blur_boxes ::
  "('a image \<Rightarrow> error + 'a image) \<Rightarrow> detection list \<Rightarrow> 'a image \<Rightarrow> error + 'a image" where
  "doc_blur_boxes blur [] processed_img = Inr processed_img"
| "doc_blur_boxes blur (d # ds) processed_img =
     (case box_ints d of (x1, y1, x2, y2) \<Rightarrow>
        (let roi = get_roi processed_img y1 y2 x1 x2
         in case blur roi of
              Inl e \<Rightarrow> Inl e
            | Inr masked_roi \<Rightarrow>
                (case set_roi processed_img y1 y2 x1 x2 masked_roi of
                   Inl e \<Rightarrow> Inl e
                 | Inr processed_img' \<Rightarrow> doc_blur_boxes blur ds processed_img')))"

definition doc_mask_results ::
  "('a image \<Rightarrow> error + 'a image) \<Rightarrow> 'a image \<Rightarrow> 'a result list \<Rightarrow> error + 'a image \<times> nat" where
  "doc_mask_results blur img results =
     (case results of
        [] \<Rightarrow> Inr (img, 0)
      | r # rest \<Rightarrow>
          (let processed_img = orig_img r;
               bs = (case boxes r of None \<Rightarrow> [] | Some bs \<Rightarrow> bs);
               detection_count = length bs
           in case doc_blur_boxes blur bs processed_img of
                Inl e \<Rightarrow> Inl e
              | Inr processed_img' \<Rightarrow> Inr (processed_img', detection_count)))"

definition doc_mask_pii_in_image ::
  "'a env \<Rightarrow> 'a detector option \<Rightarrow> 'a image \<Rightarrow> ('a image \<times> nat) \<times> 'a detector option" where
  "doc_mask_pii_in_image env model img =
     (case load_model env AADHAR_MODEL_PATH model of
        (Inl e, model') \<Rightarrow> ((img, 0), model')
      | (Inr m, model') \<Rightarrow>
          (case m img of
             Inl e \<Rightarrow> ((img, 0), model')
           | Inr results \<Rightarrow>
               (case doc_mask_results (GaussianBlur env) img results of
                  Inl e \<Rightarrow> ((img, 0), model')
                | Inr out \<Rightarrow> (out, model'))))"

section \<open>The endpoints\<close>

text \<open>
  An upload after it has been saved: the base name of the secured file name, whether the
  name ends in \<^verbatim>\<open>.pdf\<close>, and what decoding the saved file gives:
  \<^verbatim>\<open>process_pdf_to_images(input_path)\<close> (an exception of \<^verbatim>\<open>fitz\<close>, or the rendered pages in
  order) and \<^verbatim>\<open>cv2.imread(input_path)\<close> (\<open>None\<close> for a file that is no image).  The results
  folder maps a file name to what was written under it.
\<close>

record 'a upload =
  base_name :: string
  is_pdf :: bool
  pdf_pages :: "error + 'a image list"
  imread :: "'a image option"

datatype 'a saved_file = PdfFile "'a image list" | JpgFile "'a image"

type_synonym 'a folder = "string \<Rightarrow> 'a saved_file option"

text \<open>
  The JSON answers: \<^verbatim>\<open>{'error': ...}, 400\<close>, \<^verbatim>\<open>{'error': 'Processing failed: ...'}, 500\<close>
  and the success record with \<^verbatim>\<open>detections\<close> and \<^verbatim>\<open>output_file\<close>.
\<close>

datatype response = Error400 string | Error500 error | Success nat string

text \<open>
  \<^verbatim>\<open>images_to_pdf\<close>: the first page saved with the others appended; with no page
  nothing is written.
\<close>

definition images_to_pdf :: "'a image list \<Rightarrow> string \<Rightarrow> 'a folder \<Rightarrow> 'a folder" where
  "images_to_pdf images output_path folder =
     (if images \<noteq> [] then folder(output_path \<mapsto> PdfFile (hd images # tl images)) else folder)"

text \<open>The loop \<^verbatim>\<open>for i, img in enumerate(images)\<close> of the PDF branch.\<close>

fun mask_pages ::
  "('s \<Rightarrow> 'a image \<Rightarrow> ('a image \<times> nat) \<times> 's) \<Rightarrow> 's \<Rightarrow> 'a image list \<Rightarrow> 'a image list \<Rightarrow> nat
     \<Rightarrow> 'a image list \<times> nat \<times> 's" where
  "mask_pages mask_fn st [] masked_images total_detections = (masked_images, total_detections, st)"
| "mask_pages mask_fn st (img # images) masked_images total_detections =
     (case mask_fn st img of
        ((masked_img, detections), st') \<Rightarrow>
          mask_pages mask_fn st' images (masked_images @ [masked_img]) (total_detections + detections))"

text \<open>
  The four endpoint functions have one body, from \<^verbatim>\<open># Determine file type\<close> on; they
  differ in the masking function they call and in the suffix of the output name.  The
  state is the model globals and the results folder.
\<close>

definition mask_endpoint ::
  "('s \<Rightarrow> 'a image \<Rightarrow> ('a image \<times> nat) \<times> 's) \<Rightarrow> string \<Rightarrow> 'a upload \<Rightarrow> 's \<times> 'a folder
     \<Rightarrow> response \<times> 's \<times> 'a folder" where
  "mask_endpoint mask_fn suffix up state =
     (case state of (st, folder) \<Rightarrow>
        if is_pdf up then
          (case pdf_pages up of
             Inl e \<Rightarrow> (Error500 e, st, folder)
           | Inr images \<Rightarrow>
               (case mask_pages mask_fn st images [] 0 of
                  (masked_images, total_detections, st') \<Rightarrow>
                    (let output_file = base_name up @ suffix @ ''.pdf''
                     in (Success total_detections output_file, st',
                         images_to_pdf masked_images output_file folder))))
        else
          (case imread up of
             None \<Rightarrow> (Error400 ''Could not read image file'', st, folder)
           | Some img \<Rightarrow>
               (case mask_fn st img of
                  ((masked_img, total_detections), st') \<Rightarrow>
                    (let output_file = base_name up @ suffix @ ''.jpg''
                     in (Success total_detections output_file, st',
                         folder(output_file \<mapsto> JpgFile masked_img))))))"

text \<open>\<^verbatim>\<open>mask_document\<close> of \<^verbatim>\<open>document_masking_server.py\<close>.\<close>

definition mask_document ::
  "'a env \<Rightarrow> 'a upload \<Rightarrow> 'a detector option \<times> 'a folder \<Rightarrow> response \<times> 'a detector option \<times> 'a folder" where
  "mask_document env = mask_endpoint (doc_mask_pii_in_image env) ''_masked''"

text \<open>\<^verbatim>\<open>mask_pan_document\<close> of \<^verbatim>\<open>pan_masking_server.py\<close>.\<close>

definition mask_pan_document ::
  "'a env \<Rightarrow> 'a upload \<Rightarrow> 'a detector option \<times> 'a folder \<Rightarrow> response \<times> 'a detector option \<times> 'a folder" where
  "mask_pan_document env = mask_endpoint (mask_pan_in_image env) ''_pan_masked''"

text \<open>\<^verbatim>\<open>mask_aadhar_document\<close> and \<^verbatim>\<open>mask_pan_document\<close> of \<^verbatim>\<open>unified_pii_server.py\<close>.\<close>

definition mask_aadhar_document ::
  "'a env \<Rightarrow> 'a upload \<Rightarrow> 'a models \<times> 'a folder \<Rightarrow> response \<times> 'a models \<times> 'a folder" where
  "mask_aadhar_document env =
     mask_endpoint (\<lambda>st img. mask_pii_in_image env st img ''aadhar'') ''_aadhar_masked''"

definition unified_mask_pan_document ::
  "'a env \<Rightarrow> 'a upload \<Rightarrow> 'a models \<times> 'a folder \<Rightarrow> response \<times> 'a models \<times> 'a folder" where
  "unified_mask_pan_document env =
     mask_endpoint (\<lambda>st img. mask_pii_in_image env st img ''pan'') ''_pan_masked''"

section \<open>Two requests in \<^verbatim>\<open>load_model\<close> at once\<close>

text \<open>
  Flask serves requests on threads, and \<^verbatim>\<open>load_model\<close> takes no lock.  A thread inside
  \<^verbatim>\<open>load_model\<close> is at one of its statements: the test \<^verbatim>\<open>model is None\<close>, the call
  \<^verbatim>\<open>YOLO(MODEL_PATH)\<close>, the assignment to the global, or \<^verbatim>\<open>return model\<close>; it ends having
  returned the global or having re-raised.  Threads interleave between these statements.
  The shared state is the global and, to count them, the number of constructor calls
  made so far; the constructor's outcome may depend on which call it is.
\<close>

datatype 'm pc = AtTest | AtConstruct | AtAssign 'm | AtReturn | Returned "'m option" | Raised error

record 'm shared =
  model_global :: "'m option"
  constructions :: nat

fun thread_step :: "(nat \<Rightarrow> error + 'm) \<Rightarrow> 'm pc \<Rightarrow> 'm shared \<Rightarrow> 'm pc \<times> 'm shared" where
  "thread_step ctor AtTest g = (if model_global g = None then (AtConstruct, g) else (AtReturn, g))"
| "thread_step ctor AtConstruct g =
     (case ctor (constructions g) of
        Inl e \<Rightarrow> (Raised e, g\<lparr>constructions := constructions g + 1\<rparr>)
      | Inr m \<Rightarrow> (AtAssign m, g\<lparr>constructions := constructions g + 1\<rparr>))"
| "thread_step ctor (AtAssign m) g = (AtReturn, g\<lparr>model_global := Some m\<rparr>)"
| "thread_step ctor AtReturn g = (Returned (model_global g), g)"
| "thread_step ctor (Returned r) g = (Returned r, g)"
| "thread_step ctor (Raised e) g = (Raised e, g)"

text \<open>A schedule names, step by step, the thread that runs next.\<close>

fun run_schedule ::
  "(nat \<Rightarrow> error + 'm) \<Rightarrow> nat list \<Rightarrow> 'm pc list \<times> 'm shared \<Rightarrow> 'm pc list \<times> 'm shared" where
  "run_schedule ctor [] state = state"
| "run_schedule ctor (t # ts) (pcs, g) =
     (if t < length pcs
      then (case thread_step ctor (pcs ! t) g of
              (p, g') \<Rightarrow> run_schedule ctor ts (pcs[t := p], g'))
      else run_schedule ctor ts (pcs, g))"

text \<open>One call of \<^verbatim>\<open>load_model\<close> run from its first statement to its end without interruption.\<close>

definition run_call :: "(nat \<Rightarrow> error + 'm) \<Rightarrow> 'm shared \<Rightarrow> 'm pc \<times> 'm shared" where
  "run_call ctor g =
     (case thread_step ctor AtTest g of (p1, g1) \<Rightarrow>
        case thread_step ctor p1 g1 of (p2, g2) \<Rightarrow>
          case thread_step ctor p2 g2 of (p3, g3) \<Rightarrow> thread_step ctor p3 g3)"

text \<open>\<open>n\<close> calls one after the other; the answers are collected in order.\<close>

fun run_calls :: "(nat \<Rightarrow> error + 'm) \<Rightarrow> nat \<Rightarrow> 'm shared \<Rightarrow> 'm pc list \<times> 'm shared" where
  "run_calls ctor 0 g = ([], g)"
| "run_calls ctor (Suc n) g =
     (case run_call ctor g of (p, g') \<Rightarrow>
        case run_calls ctor n g' of (ps, g'') \<Rightarrow> (p # ps, g''))"

text \<open>
  A handle is constructed when one of the constructor calls made so far returned it.  The
  constructor call \<^verbatim>\<open>YOLO(MODEL_PATH)\<close> is one statement: its value exists only once it has
  returned, and only then is it assigned to the global.
\<close>

definition constructed :: "(nat \<Rightarrow> error + 'm) \<Rightarrow> 'm shared \<Rightarrow> 'm \<Rightarrow> bool" where
  "constructed ctor g m = (Inr m \<in> set (map ctor [0..<constructions g]))"

text \<open>
  What a thread at a given statement relies on: the value it is about to assign and the
  value it has returned are constructed handles, and at \<^verbatim>\<open>return model\<close> the global is set.
  A state is consistent when this holds of every thread and the global, when set, holds a
  constructed handle.
\<close>

fun pc_consistent :: "(nat \<Rightarrow> error + 'm) \<Rightarrow> 'm shared \<Rightarrow> 'm pc \<Rightarrow> bool" where
  "pc_consistent ctor g (AtAssign m) = constructed ctor g m"
| "pc_consistent ctor g AtReturn = (model_global g \<noteq> None)"
| "pc_consistent ctor g (Returned r) = (case r of None \<Rightarrow> False | Some m \<Rightarrow> constructed ctor g m)"
| "pc_consistent ctor g AtTest = True"
| "pc_consistent ctor g AtConstruct = True"
| "pc_consistent ctor g (Raised e) = True"

definition consistent :: "(nat \<Rightarrow> error + 'm) \<Rightarrow> 'm pc list \<Rightarrow> 'm shared \<Rightarrow> bool" where
  "consistent ctor pcs g =
     (list_all (pc_consistent ctor g) pcs
      \<and> (case model_global g of None \<Rightarrow> True | Some m \<Rightarrow> constructed ctor g m))"

text \<open>
  The calls that may still run the constructor: a call at \<^verbatim>\<open>YOLO(MODEL_PATH)\<close>, and a call
  at the test while the global is \<open>None\<close>.  \<open>pending\<close> counts them.
\<close>

fun waiting :: "'m shared \<Rightarrow> 'm pc \<Rightarrow> nat" where
  "waiting g AtTest = (if model_global g = None then 1 else 0)"
| "waiting g AtConstruct = 1"
| "waiting g (AtAssign m) = 0"
| "waiting g AtReturn = 0"
| "waiting g (Returned r) = 0"
| "waiting g (Raised e) = 0"

definition pending :: "'m pc list \<Rightarrow> 'm shared \<Rightarrow> nat" where
  "pending pcs g = sum_list (map (waiting g) pcs)"


section \<open>Notions used to state the properties\<close>

text \<open>The boxes of all results of a detector call, in the detector's order.\<close>

definition all_boxes :: "'a result list \<Rightarrow> detection list" where
  "all_boxes results = concat (map (\<lambda>r. case boxes r of None \<Rightarrow> [] | Some bs \<Rightarrow> bs) results)"

text \<open>What the detector returns for a page, given the outcome of the load; nothing on a failure.\<close>

definition detected_results :: "error + 'a detector \<Rightarrow> 'a image \<Rightarrow> 'a result list" where
  "detected_results loaded img =
     (case loaded of
        Inl e \<Rightarrow> []
      | Inr m \<Rightarrow> (case m img of Inl e \<Rightarrow> [] | Inr results \<Rightarrow> results))"

text \<open>A box survives clipping when the clipped box has positive width and height.\<close>

definition survives :: "'a image \<Rightarrow> detection \<Rightarrow> bool" where
  "survives img d = (case clip_box img d of (x1, y1, x2, y2) \<Rightarrow> x2 > x1 \<and> y2 > y1)"

definition applied_regions :: "'a image \<Rightarrow> detection list \<Rightarrow> (int \<times> int \<times> int \<times> int) list" where
  "applied_regions img ds = map (clip_box img) (filter (survives img) ds)"

text \<open>Pixel \<open>(y, x)\<close> lies in the rectangle \<open>(x1, y1, x2, y2)\<close>, the upper bounds excluded.\<close>

definition in_region :: "int \<times> int \<times> int \<times> int \<Rightarrow> nat \<Rightarrow> nat \<Rightarrow> bool" where
  "in_region reg y x =
     (case reg of (x1, y1, x2, y2) \<Rightarrow> x1 \<le> int x \<and> int x < x2 \<and> y1 \<le> int y \<and> int y < y2)"

definition in_rows_cols :: "nat \<times> nat \<Rightarrow> nat \<times> nat \<Rightarrow> nat \<Rightarrow> nat \<Rightarrow> bool" where
  "in_rows_cols rows cols y x = (fst rows \<le> y \<and> y < snd rows \<and> fst cols \<le> x \<and> x < snd cols)"

text \<open>The regions a masking call applies, for the two servers that clip.\<close>

definition pan_applied :: "'a env \<Rightarrow> 'a detector option \<Rightarrow> 'a image \<Rightarrow> (int \<times> int \<times> int \<times> int) list" where
  "pan_applied env model img =
     applied_regions img (all_boxes (detected_results (fst (load_model env PAN_MODEL_PATH model)) img))"

definition pii_applied :: "'a env \<Rightarrow> 'a models \<Rightarrow> 'a image \<Rightarrow> string \<Rightarrow> (int \<times> int \<times> int \<times> int) list" where
  "pii_applied env st img model_type =
     applied_regions img (all_boxes (detected_results
       (fst (if model_type = ''aadhar'' then load_aadhar_model env st else load_pan_model env st)) img))"

section \<open>Concrete pages, boxes and detectors used in the examples\<close>

definition page4 :: "nat image" where
  "page4 = [[10, 11, 12, 13], [20, 21, 22, 23], [30, 31, 32, 33], [40, 41, 42, 43]]"

text \<open>
  A stand-in for the blur: it halves every pixel, keeps the shape and, as
  \<^verbatim>\<open>cv2.GaussianBlur\<close> does, raises on an empty array.
\<close>

definition halving_blur :: "nat image \<Rightarrow> error + nat image" where
  "halving_blur roi = (if img_size roi = 0 then Inl CvError else Inr (map (map (\<lambda>p. p div 2)) roi))"

definition box :: "real \<Rightarrow> real \<Rightarrow> real \<Rightarrow> real \<Rightarrow> detection" where
  "box x1 y1 x2 y2 = \<lparr>xyxy = (x1, y1, x2, y2), conf = 0.9, cls = 0\<rparr>"

definition fixed_detector :: "detection list \<Rightarrow> nat detector" where
  "fixed_detector bs img = Inr [\<lparr>orig_img = img, boxes = Some bs\<rparr>]"

definition test_env :: "detection list \<Rightarrow> nat env" where
  "test_env bs = \<lparr>YOLO = (\<lambda>path. Inr (fixed_detector bs)), GaussianBlur = halving_blur\<rparr>"

definition broken_env :: "nat env" where
  "broken_env = \<lparr>YOLO = (\<lambda>path. Inl LoadError), GaussianBlur = halving_blur\<rparr>"

definition no_models :: "nat models" where
  "no_models = \<lparr>aadhar_model = None, pan_model = None\<rparr>"

definition empty_folder :: "nat folder" where
  "empty_folder = (\<lambda>name. None)"

definition fresh_instance :: "nat \<Rightarrow> error + nat" where
  "fresh_instance k = Inr k"

definition unloaded :: "nat shared" where
  "unloaded = \<lparr>model_global = None, constructions = 0\<rparr>"

text \<open>The process after one completed load.\<close>

definition loaded_once :: "nat shared" where
  "loaded_once = \<lparr>model_global = Some 0, constructions = 1\<rparr>"

definition blur_env :: "detection list \<Rightarrow> (nat image \<Rightarrow> error + nat image) \<Rightarrow> nat env" where
  "blur_env bs blur = \<lparr>YOLO = (\<lambda>path. Inr (fixed_detector bs)), GaussianBlur = blur\<rparr>"

text \<open>Two boxes, the second inside the first.\<close>

definition nested_boxes :: "detection list" where
  "nested_boxes = [box 0 0 3 3, box 1 1 2 3]"

definition empty_pdf :: "nat upload" where
  "empty_pdf = \<lparr>base_name = ''scan'', is_pdf = True, pdf_pages = Inr [], imread = None\<rparr>"

definition unreadable_image :: "nat upload" where
  "unreadable_image = \<lparr>base_name = ''scan'', is_pdf = False, pdf_pages = Inl FitzError, imread = None\<rparr>"

definition two_page_pdf :: "nat upload" where
  "two_page_pdf = \<lparr>base_name = ''card'', is_pdf = True, pdf_pages = Inr [page4, page4], imread = None\<rparr>"

definition photo :: "nat upload" where
  "photo = \<lparr>base_name = ''photo'', is_pdf = False, pdf_pages = Inl FitzError, imread = Some page4\<rparr>"

section \<open>Properties of the URL classifier\<close>

lemma failure_fields:
  "isGovernment (failure why) = False" "confidence (failure why) = 0"
  "isUnsafe (failure why) = True" "classification (failure why) = None"
  by (simp_all add: failure_def)

lemma contains_iff: "contains sub s \<longleftrightarrow> (\<exists>ps ss. s = ps @ sub @ ss)"
proof (induction s)
  case Nil
  then show ?case by auto
next
  case (Cons c cs)
  show ?case
  proof
    assume "contains sub (c # cs)"
    then consider "take (length sub) (c # cs) = sub" | "contains sub cs"
      by auto
    then show "\<exists>ps ss. c # cs = ps @ sub @ ss"
    proof cases
      case 1
      then have "c # cs = [] @ sub @ drop (length sub) (c # cs)"
        by (metis append_Nil append_take_drop_id)
      then show ?thesis by blast
    next
      case 2
      then obtain ps ss where "cs = ps @ sub @ ss"
        using Cons.IH by blast
      then have "c # cs = (c # ps) @ sub @ ss" by simp
      then show ?thesis by blast
    qed
  next
    assume "\<exists>ps ss. c # cs = ps @ sub @ ss"
    then obtain ps ss where e: "c # cs = ps @ sub @ ss" by blast
    show "contains sub (c # cs)"
    proof (cases ps)
      case Nil
      then have "take (length sub) (c # cs) = sub" using e by simp
      then show ?thesis by simp
    next
      case (Cons p ps')
      then have "cs = ps' @ sub @ ss" using e by simp
      then show ?thesis using Cons.IH by auto
    qed
  qed
qed

text \<open>
  C7 (as amended).  When the classifier or the vectorizer is unset, and when
  \<^verbatim>\<open>vectorizer.transform\<close> raises, \<^verbatim>\<open>model.predict\<close> raises or the prediction array is
  empty, \<^verbatim>\<open>classify_url\<close> returns the fail-closed record for every url: isGovernment
  false, confidence 0.0, isUnsafe true, a failure reason and no classification.  An
  exception raised by \<^verbatim>\<open>predict_proba\<close> alone is not covered: the inner handler absorbs it.
\<close>

theorem classify_url_fail_closed:
  assumes "model = None \<or> vectorizer = None
           \<or> (\<exists>v e. vectorizer = Some v \<and> transform v [url] = Inl e)
           \<or> (\<exists>v m X. vectorizer = Some v \<and> model = Some m \<and> transform v [url] = Inr X
                 \<and> (predict m X = Inr [] \<or> (\<exists>e. predict m X = Inl e)))"
  shows "\<exists>why. classify_url vectorizer model url = failure why
           \<and> (why = NotLoaded \<or> (\<exists>e. why = ErrorReason e))
           \<and> isGovernment (failure why) = False \<and> confidence (failure why) = 0
           \<and> isUnsafe (failure why) = True"
proof -
  have "\<exists>why. classify_url vectorizer model url = failure why
           \<and> (why = NotLoaded \<or> (\<exists>e. why = ErrorReason e))"
    using assms
    by (auto simp: classify_url_def split: option.splits sum.splits list.splits)
  then show ?thesis
    by (simp add: failure_fields)
qed

theorem classify_url_fail_closed_witness:
  "\<exists>why. classify_url (Some failing_vectorizer) (Some government_classifier) ''https://pmindia.gov.in''
            = failure why
         \<and> (why = NotLoaded \<or> (\<exists>e. why = ErrorReason e))
         \<and> isGovernment (failure why) = False \<and> confidence (failure why) = 0
         \<and> isUnsafe (failure why) = True"
proof -
  have "\<exists>v e. Some failing_vectorizer = Some v \<and> transform v [''https://pmindia.gov.in''] = Inl e"
    by (simp add: failing_vectorizer_def)
  then show ?thesis
    using classify_url_fail_closed
      [of "Some government_classifier" "Some failing_vectorizer" "''https://pmindia.gov.in''"]
    by blast
qed

text \<open>
  C7 as stated fails: with a classifier whose \<^verbatim>\<open>predict_proba\<close> raises while \<^verbatim>\<open>predict\<close>
  answers \<^verbatim>\<open>government\<close>, the inference error is swallowed and the url is reported as
  trusted with the default confidence 0.8.
\<close>

theorem classify_url_proba_error_counterexample:
  "predict_proba government_classifier = Some proba_raises
   \<and> proba_raises 22 = Inl SklearnError
   \<and> transform length_vectorizer [''https://pmindia.gov.in''] = Inr 22
   \<and> isUnsafe (classify_url (Some length_vectorizer) (Some government_classifier)
                 ''https://pmindia.gov.in'') = False
   \<and> isGovernment (classify_url (Some length_vectorizer) (Some government_classifier)
                     ''https://pmindia.gov.in'') = True
   \<and> confidence (classify_url (Some length_vectorizer) (Some government_classifier)
                    ''https://pmindia.gov.in'') = 0.8"
  by (simp add: classify_url_def government_classifier_def length_vectorizer_def
      proba_raises_def get_confidence_def is_government_label_def lower_def lower_char_def)

text \<open>
  C10.  When the classifier is loaded and \<^verbatim>\<open>transform\<close> and \<^verbatim>\<open>predict\<close> succeed,
  isGovernment is true exactly when the lower-cased label has one of the substrings
  \<^verbatim>\<open>government\<close>, \<^verbatim>\<open>authorized\<close>, \<^verbatim>\<open>gov\<close>, \<^verbatim>\<open>legitimate\<close>, and isUnsafe is its negation;
  so a label that has \<^verbatim>\<open>gov\<close> as a substring is reported as trusted and safe.
\<close>

theorem classify_url_trusted_iff_substring:
  assumes "transform v [url] = Inr X" and "predict m X = Inr (prediction # rest)"
  shows "(isGovernment (classify_url (Some v) (Some m) url) \<longleftrightarrow>
            (\<exists>sub \<in> {''government'', ''authorized'', ''gov'', ''legitimate''}.
               \<exists>ps ss. lower prediction = ps @ sub @ ss))
         \<and> isUnsafe (classify_url (Some v) (Some m) url)
             = (\<not> isGovernment (classify_url (Some v) (Some m) url))
         \<and> classification (classify_url (Some v) (Some m) url) = Some prediction
         \<and> ((\<exists>ps ss. lower prediction = ps @ ''gov'' @ ss) \<longrightarrow>
              isGovernment (classify_url (Some v) (Some m) url)
              \<and> \<not> isUnsafe (classify_url (Some v) (Some m) url))"
  using assms
  by (auto simp: classify_url_def is_government_label_def Let_def contains_iff)

theorem classify_url_trusted_iff_substring_witness:
  "transform length_vectorizer [''https://example.com''] = Inr 19
   \<and> predict non_government_classifier 19 = Inr [''Non-Government'']
   \<and> lower ''Non-Government'' = ''non-'' @ ''gov'' @ ''ernment''
   \<and> isGovernment (classify_url (Some length_vectorizer) (Some non_government_classifier)
                     ''https://example.com'')
   \<and> \<not> isUnsafe (classify_url (Some length_vectorizer) (Some non_government_classifier)
                    ''https://example.com'')"
proof -
  have t: "transform length_vectorizer [''https://example.com''] = Inr 19"
    by (simp add: length_vectorizer_def)
  have p: "predict non_government_classifier 19 = Inr (''Non-Government'' # [])"
    by (simp add: non_government_classifier_def)
  have l: "lower ''Non-Government'' = ''non-'' @ ''gov'' @ ''ernment''"
    by (simp add: lower_def lower_char_def)
  then have "\<exists>ps ss. lower ''Non-Government'' = ps @ ''gov'' @ ss"
    by blast
  then show ?thesis
    using classify_url_trusted_iff_substring [OF t p] t p l by blast
qed

section \<open>Slices, reads and writes of regions\<close>


lemma length_crop: "r1 \<le> length img \<Longrightarrow> r0 \<le> r1 \<Longrightarrow> length (crop img (r0, r1) cols) = r1 - r0"
  by (simp add: crop_def)

lemma length_paste:
  "r0 \<le> r1 \<Longrightarrow> r1 \<le> length img \<Longrightarrow> length v = r1 - r0 \<Longrightarrow>
   length (paste img (r0, r1) cols v) = length img"
  by (simp add: paste_def)

lemma nth_paste_row:
  assumes "r0 \<le> r1" "r1 \<le> length img" "length v = r1 - r0" "y < length img"
  shows "paste img (r0, r1) (c0, c1) v ! y =
     (if r0 \<le> y \<and> y < r1 then take c0 (img ! y) @ v ! (y - r0) @ drop c1 (img ! y) else img ! y)"
  using assms
  by (auto simp: paste_def nth_append min_def)

lemma nth_paste:
  assumes "r0 \<le> r1" "r1 \<le> length img" "length v = r1 - r0" "y < length img"
    and "c0 \<le> c1" "c1 \<le> length (img ! y)" "x < length (img ! y)"
    and "\<forall>vrow \<in> set v. length vrow = c1 - c0"
  shows "paste img (r0, r1) (c0, c1) v ! y ! x =
     (if r0 \<le> y \<and> y < r1 \<and> c0 \<le> x \<and> x < c1 then v ! (y - r0) ! (x - c0) else img ! y ! x)"
proof -
  have row: "paste img (r0, r1) (c0, c1) v ! y =
     (if r0 \<le> y \<and> y < r1 then take c0 (img ! y) @ v ! (y - r0) @ drop c1 (img ! y) else img ! y)"
    using assms(1-4) by (rule nth_paste_row)
  show ?thesis
  proof (cases "r0 \<le> y \<and> y < r1")
    case False
    then show ?thesis using row by auto
  next
    case True
    then have "y - r0 < length v" using assms by auto
    then have lv: "length (v ! (y - r0)) = c1 - c0" using assms(8) by simp
    show ?thesis using True row lv assms(5-7)
      by (auto simp: nth_append min_def)
  qed
qed

lemma nth_crop:
  assumes "r0 + i < length img" "i < r1 - r0" "c0 + j < length (img ! (r0 + i))" "j < c1 - c0"
  shows "crop img (r0, r1) (c0, c1) ! i ! j = img ! (r0 + i) ! (c0 + j)"
  proof -
  have "r0 \<le> length img" using assms by simp
  then show ?thesis using assms by (simp add: crop_def)
qed


lemma slice_range_le: "slice_range n a b = (s, e) \<Longrightarrow> s \<le> e \<and> e \<le> n"
  by (auto simp: slice_range_def slice_index_def Let_def max_def min_def split: if_splits)

lemma slice_range_clipped:
  "0 \<le> a \<Longrightarrow> a \<le> b \<Longrightarrow> b \<le> int n \<Longrightarrow> slice_range n a b = (nat a, nat b)"
  by (auto simp: slice_range_def slice_index_def Let_def)

lemma rectangular_nth: "rectangular img \<Longrightarrow> y < length img \<Longrightarrow> length (img ! y) = shape1 img"
  by (simp add: rectangular_def list_all_length)

lemma shape_of_lengths:
  assumes "map length a = map length b"
  shows "shape0 a = shape0 b" "shape1 a = shape1 b" "rectangular a = rectangular b"
proof -
  show l: "shape0 a = shape0 b"
    using assms unfolding shape0_def by (metis length_map)
  show w: "shape1 a = shape1 b"
    using assms unfolding shape1_def by (cases a; cases b) auto
  have "\<And>y. y < length a \<Longrightarrow> length (a ! y) = length (b ! y)"
    using assms by (metis length_map nth_map)
  then show "rectangular a = rectangular b"
    using l w by (auto simp: rectangular_def list_all_length shape0_def)
qed

lemma map_length_paste:
  assumes "r0 \<le> r1" "r1 \<le> length img" "length v = r1 - r0"
    and "c0 \<le> c1" "\<forall>y < length img. c1 \<le> length (img ! y)"
    and "\<forall>vrow \<in> set v. length vrow = c1 - c0"
  shows "map length (paste img (r0, r1) (c0, c1) v) = map length img"
proof (rule nth_equalityI)
  show "length (map length (paste img (r0, r1) (c0, c1) v)) = length (map length img)"
    using assms by (simp add: length_paste)
next
  fix y assume "y < length (map length (paste img (r0, r1) (c0, c1) v))"
  then have y: "y < length img" using assms by (simp add: length_paste)
  have row: "paste img (r0, r1) (c0, c1) v ! y =
     (if r0 \<le> y \<and> y < r1 then take c0 (img ! y) @ v ! (y - r0) @ drop c1 (img ! y) else img ! y)"
    using assms(1-3) y by (rule nth_paste_row)
  have "length (paste img (r0, r1) (c0, c1) v ! y) = length (img ! y)"
  proof (cases "r0 \<le> y \<and> y < r1")
    case False
    then show ?thesis using row by auto
  next
    case True
    then have "y - r0 < length v" using assms by auto
    then have "length (v ! (y - r0)) = c1 - c0" using assms(6) by simp
    moreover have "c1 \<le> length (img ! y)" using assms(5) y by simp
    ultimately show ?thesis using True row assms(4) by (auto simp: min_def)
  qed
  then show "map length (paste img (r0, r1) (c0, c1) v) ! y = map length img ! y"
    using y assms by (simp add: length_paste)
qed

lemma set_roi_props:
  assumes rect: "rectangular img" and ok: "set_roi img y1 y2 x1 x2 v = Inr out"
  shows "map length out = map length img"
    and "y < shape0 img \<Longrightarrow> x < shape1 img \<Longrightarrow>
         out ! y ! x =
           (if in_rows_cols (slice_range (shape0 img) y1 y2) (slice_range (shape1 img) x1 x2) y x
            then v ! (y - fst (slice_range (shape0 img) y1 y2))
                   ! (x - fst (slice_range (shape1 img) x1 x2))
            else img ! y ! x)"
proof -
  obtain r0 r1 where rows: "slice_range (shape0 img) y1 y2 = (r0, r1)" by fastforce
  obtain c0 c1 where cols: "slice_range (shape1 img) x1 x2 = (c0, c1)" by fastforce
  have rb: "r0 \<le> r1" "r1 \<le> length img"
    using slice_range_le [OF rows] by (simp_all add: shape0_def)
  have cb: "c0 \<le> c1" "c1 \<le> shape1 img"
    using slice_range_le [OF cols] by simp_all
  have out: "out = paste img (r0, r1) (c0, c1) v" and lv: "length v = r1 - r0"
    and lr: "\<forall>vrow \<in> set v. length vrow = c1 - c0"
    using ok rows cols by (auto simp: set_roi_def Let_def list_all_iff split: if_splits)
  have w: "\<forall>y < length img. c1 \<le> length (img ! y)"
    using rect cb by (simp add: rectangular_nth)
  show "map length out = map length img"
    unfolding out using rb lv cb(1) w lr by (rule map_length_paste)
  assume y: "y < shape0 img" and x: "x < shape1 img"
  have yl: "y < length img" using y by (simp add: shape0_def)
  have xl: "x < length (img ! y)" "c1 \<le> length (img ! y)"
    using x yl rect cb by (simp_all add: rectangular_nth)
  have "paste img (r0, r1) (c0, c1) v ! y ! x =
     (if r0 \<le> y \<and> y < r1 \<and> c0 \<le> x \<and> x < c1 then v ! (y - r0) ! (x - c0) else img ! y ! x)"
    using rb lv yl cb(1) xl(2) xl(1) lr by (rule nth_paste)
  then show "out ! y ! x =
           (if in_rows_cols (slice_range (shape0 img) y1 y2) (slice_range (shape1 img) x1 x2) y x
            then v ! (y - fst (slice_range (shape0 img) y1 y2))
                   ! (x - fst (slice_range (shape1 img) x1 x2))
            else img ! y ! x)"
    unfolding out rows cols in_rows_cols_def by simp
qed


lemma clip_box_bounds:
  assumes "clip_box img d = (x1, y1, x2, y2)" "x2 > x1" "y2 > y1"
  shows "0 \<le> x1 \<and> x1 < x2 \<and> x2 \<le> int (shape1 img) \<and> 0 \<le> y1 \<and> y1 < y2 \<and> y2 \<le> int (shape0 img)"
  using assms by (auto simp: clip_box_def split: prod.splits)

lemma img_size_crop_pos:
  assumes "r0 < r1" "r1 \<le> length img" "c0 < c1" "\<forall>y < length img. c1 \<le> length (img ! y)"
  shows "img_size (crop img (r0, r1) (c0, c1)) > 0"
proof -
  have len: "length (crop img (r0, r1) (c0, c1)) = r1 - r0"
    using assms by (simp add: crop_def)
  then have mem: "crop img (r0, r1) (c0, c1) ! 0 \<in> set (crop img (r0, r1) (c0, c1))"
    using assms(1) by (metis nth_mem zero_less_diff)
  have "crop img (r0, r1) (c0, c1) ! 0 = take (c1 - c0) (drop c0 (img ! r0))"
    using assms by (simp add: crop_def)
  moreover have "c1 \<le> length (img ! r0)" using assms by simp
  ultimately have "length (crop img (r0, r1) (c0, c1) ! 0) = c1 - c0"
    by simp
  then have "c1 - c0 \<in> set (map length (crop img (r0, r1) (c0, c1)))"
    using mem by (metis image_eqI list.set_map)
  then have "c1 - c0 \<le> img_size (crop img (r0, r1) (c0, c1))"
    unfolding img_size_def by (simp add: member_le_sum_list)
  then show ?thesis using assms(3) by simp
qed

lemma get_roi_clipped:
  assumes "0 \<le> x1" "x1 \<le> x2" "x2 \<le> int (shape1 img)" "0 \<le> y1" "y1 \<le> y2" "y2 \<le> int (shape0 img)"
  shows "get_roi img y1 y2 x1 x2 = crop img (nat y1, nat y2) (nat x1, nat x2)"
  using assms by (simp add: get_roi_def slice_range_clipped)

lemma mask_boxes_step:
  assumes rect: "rectangular masked" and shape: "map length masked = map length img"
    and clip: "clip_box img d = (x1, y1, x2, y2)" and sv: "x2 > x1" "y2 > y1"
  shows "mask_boxes blur img (d # ds) (masked, cnt) =
     (case blur (get_roi masked y1 y2 x1 x2) of
        Inl e \<Rightarrow> Inl e
      | Inr masked_roi \<Rightarrow>
          (case set_roi masked y1 y2 x1 x2 masked_roi of
             Inl e \<Rightarrow> Inl e
           | Inr masked' \<Rightarrow> mask_boxes blur img ds (masked', cnt + 1)))"
proof -
  have b: "0 \<le> x1" "x1 < x2" "x2 \<le> int (shape1 img)" "0 \<le> y1" "y1 < y2" "y2 \<le> int (shape0 img)"
    using clip_box_bounds [OF clip sv] by simp_all
  have s: "shape0 masked = shape0 img" "shape1 masked = shape1 img"
    using shape_of_lengths [OF shape] by simp_all
  have roi: "get_roi masked y1 y2 x1 x2 = crop masked (nat y1, nat y2) (nat x1, nat x2)"
    using b s by (simp add: get_roi_clipped)
  have "img_size (crop masked (nat y1, nat y2) (nat x1, nat x2)) > 0"
  proof (rule img_size_crop_pos)
    show "nat y1 < nat y2" using b by simp
    show "nat y2 \<le> length masked" using b s by (simp add: shape0_def)
    show "nat x1 < nat x2" using b by simp
    have "nat x2 \<le> shape1 masked" using b s by linarith
    then show "\<forall>y < length masked. nat x2 \<le> length (masked ! y)"
      using rect by (simp add: rectangular_nth)
  qed
  then show ?thesis
    using clip sv roi by (simp add: Let_def)
qed

lemma mask_boxes_skip:
  assumes "clip_box img d = (x1, y1, x2, y2)" "\<not> (x2 > x1 \<and> y2 > y1)"
  shows "mask_boxes blur img (d # ds) (masked, cnt) = mask_boxes blur img ds (masked, cnt)"
  using assms by auto

lemma in_rows_cols_clipped:
  assumes "0 \<le> x1" "0 \<le> y1"
  shows "in_rows_cols (nat y1, nat y2) (nat x1, nat x2) y x = in_region (x1, y1, x2, y2) y x"
  using assms by (auto simp: in_rows_cols_def in_region_def)

lemma mask_boxes_invariants:
  assumes rect: "rectangular img"
  shows "map length masked = map length img \<Longrightarrow>
         mask_boxes blur img ds (masked, cnt) = Inr (out, n) \<Longrightarrow>
         map length out = map length img
         \<and> n = cnt + length (filter (survives img) ds)
         \<and> (y < shape0 img \<longrightarrow> x < shape1 img \<longrightarrow>
              (\<forall>d \<in> set ds. survives img d \<longrightarrow> \<not> in_region (clip_box img d) y x) \<longrightarrow>
              out ! y ! x = masked ! y ! x)"
proof (induction ds arbitrary: masked cnt)
  case Nil
  then show ?case by simp
next
  case (Cons d ds)
  obtain x1 y1 x2 y2 where clip: "clip_box img d = (x1, y1, x2, y2)"
    by (cases "clip_box img d") auto
  show ?case
  proof (cases "x2 > x1 \<and> y2 > y1")
    case False
    then have nsv: "\<not> survives img d"
      using clip by (simp add: survives_def)
    have "mask_boxes blur img ds (masked, cnt) = Inr (out, n)"
      using Cons.prems(2) mask_boxes_skip [OF clip False] by simp
    from Cons.IH [OF Cons.prems(1) this] show ?thesis
      using nsv by simp
  next
    case True
    then have sv: "survives img d"
      using clip by (simp add: survives_def)
    have rm: "rectangular masked"
      using rect shape_of_lengths(3) [OF Cons.prems(1)] by simp
    have s: "shape0 masked = shape0 img" "shape1 masked = shape1 img"
      using shape_of_lengths [OF Cons.prems(1)] by simp_all
    have b: "0 \<le> x1" "x1 < x2" "x2 \<le> int (shape1 img)" "0 \<le> y1" "y1 < y2" "y2 \<le> int (shape0 img)"
      using clip_box_bounds [OF clip] True by simp_all
    have step: "mask_boxes blur img (d # ds) (masked, cnt) =
      (case blur (get_roi masked y1 y2 x1 x2) of
        Inl e \<Rightarrow> Inl e
      | Inr masked_roi \<Rightarrow>
          (case set_roi masked y1 y2 x1 x2 masked_roi of
             Inl e \<Rightarrow> Inl e
           | Inr masked' \<Rightarrow> mask_boxes blur img ds (masked', cnt + 1)))"
      using rm Cons.prems(1) clip True by (intro mask_boxes_step) simp_all
    then obtain masked_roi masked' where
      bl: "blur (get_roi masked y1 y2 x1 x2) = Inr masked_roi" and
      st: "set_roi masked y1 y2 x1 x2 masked_roi = Inr masked'" and
      run: "mask_boxes blur img ds (masked', cnt + 1) = Inr (out, n)"
      using Cons.prems(2) by (auto split: sum.splits)
    have l': "map length masked' = map length img"
      using set_roi_props(1) [OF rm st] Cons.prems(1) by simp
    note ih = Cons.IH [OF l' run]
    have px: "masked' ! y ! x = masked ! y ! x"
      if "y < shape0 img" "x < shape1 img" "\<not> in_region (x1, y1, x2, y2) y x"
    proof -
      have "slice_range (shape0 masked) y1 y2 = (nat y1, nat y2)"
        "slice_range (shape1 masked) x1 x2 = (nat x1, nat x2)"
        using b s by (simp_all add: slice_range_clipped)
      then show ?thesis
        using set_roi_props(2) [OF rm st, of y x] that s b
        by (simp add: in_rows_cols_clipped)
    qed
    show ?thesis
      using ih sv clip px by auto
  qed
qed

section \<open>The masking loops\<close>



lemma all_boxes_simps:
  "all_boxes [] = []"
  "all_boxes (r # rs) = (case boxes r of None \<Rightarrow> [] | Some bs \<Rightarrow> bs) @ all_boxes rs"
  by (simp_all add: all_boxes_def)

lemma mask_boxes_append_invariants:
  assumes rect: "rectangular img" and shape: "map length masked = map length img"
    and run: "mask_boxes blur img ds (masked, cnt) = Inr (mid, k)"
    and rest: "map length out = map length img
         \<and> n = k + length (filter (survives img) es)
         \<and> (y < shape0 img \<longrightarrow> x < shape1 img \<longrightarrow>
              (\<forall>d \<in> set es. survives img d \<longrightarrow> \<not> in_region (clip_box img d) y x) \<longrightarrow>
              out ! y ! x = mid ! y ! x)"
  shows "map length out = map length img
         \<and> n = cnt + length (filter (survives img) (ds @ es))
         \<and> (y < shape0 img \<longrightarrow> x < shape1 img \<longrightarrow>
              (\<forall>d \<in> set (ds @ es). survives img d \<longrightarrow> \<not> in_region (clip_box img d) y x) \<longrightarrow>
              out ! y ! x = masked ! y ! x)"
  using mask_boxes_invariants [OF rect shape run, of y x] rest by auto

lemma mask_results_invariants:
  assumes rect: "rectangular img"
  shows "map length masked = map length img \<Longrightarrow>
         mask_results blur img rs (masked, cnt) = Inr (out, n) \<Longrightarrow>
         map length out = map length img
         \<and> n = cnt + length (filter (survives img) (all_boxes rs))
         \<and> (y < shape0 img \<longrightarrow> x < shape1 img \<longrightarrow>
              (\<forall>d \<in> set (all_boxes rs). survives img d \<longrightarrow> \<not> in_region (clip_box img d) y x) \<longrightarrow>
              out ! y ! x = masked ! y ! x)"
proof (induction rs arbitrary: masked cnt)
  case Nil
  then show ?case by (simp add: all_boxes_simps)
next
  case (Cons r rs)
  show ?case
  proof (cases "boxes r")
    case None
    then have "mask_results blur img rs (masked, cnt) = Inr (out, n)"
      using Cons.prems(2) by simp
    from Cons.IH [OF Cons.prems(1) this] show ?thesis
      using None by (simp add: all_boxes_simps)
  next
    case (Some bs)
    show ?thesis
    proof (cases "bs = []")
      case True
      then have "mask_results blur img rs (masked, cnt) = Inr (out, n)"
        using Cons.prems(2) Some by simp
      from Cons.IH [OF Cons.prems(1) this] show ?thesis
        using Some True by (simp add: all_boxes_simps)
    next
      case False
      then obtain mid k where
        run: "mask_boxes blur img bs (masked, cnt) = Inr (mid, k)" and
        rest: "mask_results blur img rs (mid, k) = Inr (out, n)"
        using Cons.prems(2) Some by (auto split: sum.splits)
      have lm: "map length mid = map length img"
        using mask_boxes_invariants [OF rect Cons.prems(1) run] by simp
      have "all_boxes (r # rs) = bs @ all_boxes rs"
        using Some by (simp add: all_boxes_simps)
      then show ?thesis
        using mask_boxes_append_invariants [OF rect Cons.prems(1) run Cons.IH [OF lm rest]]
        by simp
    qed
  qed
qed

text \<open>The outcome of the masking call: the page untouched and 0, or a completed run of the loops.\<close>

lemma detect_and_mask_cases:
  "fst (detect_and_mask env img loaded) = (img, 0)
   \<or> mask_results (GaussianBlur env) img (detected_results (fst loaded) img) (img, 0)
       = Inr (fst (detect_and_mask env img loaded))"
  by (auto simp: detect_and_mask_def detected_results_def split: prod.splits sum.splits)

lemma detect_and_mask_invariants:
  assumes rect: "rectangular img"
  shows "map length (fst (fst (detect_and_mask env img loaded))) = map length img
    \<and> (snd (fst (detect_and_mask env img loaded)) = 0
         \<or> snd (fst (detect_and_mask env img loaded))
             = length (applied_regions img (all_boxes (detected_results (fst loaded) img))))
    \<and> (y < shape0 img \<longrightarrow> x < shape1 img \<longrightarrow>
         (\<forall>reg \<in> set (applied_regions img (all_boxes (detected_results (fst loaded) img))).
            \<not> in_region reg y x) \<longrightarrow>
         fst (fst (detect_and_mask env img loaded)) ! y ! x = img ! y ! x)"
proof -
  obtain out n where on: "fst (detect_and_mask env img loaded) = (out, n)"
    by fastforce
  consider "out = img \<and> n = 0"
    | "mask_results (GaussianBlur env) img (detected_results (fst loaded) img) (img, 0)
         = Inr (out, n)"
    using detect_and_mask_cases [of env img loaded] on by auto
  then have "map length out = map length img
    \<and> (n = 0 \<or> n = length (applied_regions img (all_boxes (detected_results (fst loaded) img))))
    \<and> (y < shape0 img \<longrightarrow> x < shape1 img \<longrightarrow>
         (\<forall>reg \<in> set (applied_regions img (all_boxes (detected_results (fst loaded) img))).
            \<not> in_region reg y x) \<longrightarrow>
         out ! y ! x = img ! y ! x)"
  proof cases
    case 1
    then show ?thesis by simp
  next
    case 2
    from mask_results_invariants [OF rect refl 2, of y x] show ?thesis
      by (auto simp: applied_regions_def)
  qed
  then show ?thesis using on by simp
qed

text \<open>
  C5.  For a page (a rectangular array) and whatever the detector returns, a pixel inside
  the page that lies in none of the applied regions (the clipped boxes that survive
  clipping) has after masking the value it had before; the shape of the page is kept.
  This holds for \<^verbatim>\<open>mask_pan_in_image\<close> and for \<^verbatim>\<open>mask_pii_in_image\<close> of the unified server.
\<close>

theorem masking_frame:
  assumes "rectangular img" and "y < shape0 img" and "x < shape1 img"
  shows "((\<forall>reg \<in> set (pan_applied env model img). \<not> in_region reg y x) \<longrightarrow>
            fst (fst (mask_pan_in_image env model img)) ! y ! x = img ! y ! x)
       \<and> ((\<forall>reg \<in> set (pii_applied env st img model_type). \<not> in_region reg y x) \<longrightarrow>
            fst (fst (mask_pii_in_image env st img model_type)) ! y ! x = img ! y ! x)
       \<and> map length (fst (fst (mask_pan_in_image env model img))) = map length img
       \<and> map length (fst (fst (mask_pii_in_image env st img model_type))) = map length img"
  using assms
    detect_and_mask_invariants [OF assms(1), of env "load_model env PAN_MODEL_PATH model" y x]
    detect_and_mask_invariants [OF assms(1), of env
      "if model_type = ''aadhar'' then load_aadhar_model env st else load_pan_model env st" y x]
  unfolding mask_pan_in_image_def mask_pii_in_image_def pan_applied_def pii_applied_def
  by blast

theorem masking_frame_witness:
  "rectangular page4 \<and> 3 < shape0 page4 \<and> 2 < shape1 page4
   \<and> pan_applied (test_env [box 0 0 2 2, box 1 1 2 9]) None page4 = [(0, 0, 2, 2), (1, 1, 2, 4)]
   \<and> pii_applied (test_env [box 0 0 2 2, box 1 1 2 9]) no_models page4 ''aadhar''
       = [(0, 0, 2, 2), (1, 1, 2, 4)]
   \<and> \<not> in_region (0, 0, 2, 2) 3 2 \<and> \<not> in_region (1, 1, 2, 4) 3 2
   \<and> fst (fst (mask_pan_in_image (test_env [box 0 0 2 2, box 1 1 2 9]) None page4)) ! 3 ! 2
       = page4 ! 3 ! 2
   \<and> fst (fst (mask_pii_in_image (test_env [box 0 0 2 2, box 1 1 2 9]) no_models page4 ''aadhar'')) ! 3 ! 2
       = page4 ! 3 ! 2"
proof -
  have r: "rectangular page4" by code_simp
  have y: "3 < shape0 page4" by code_simp
  have x: "2 < shape1 page4" by code_simp
  have p: "pan_applied (test_env [box 0 0 2 2, box 1 1 2 9]) None page4 = [(0, 0, 2, 2), (1, 1, 2, 4)]"
    by code_simp
  have q: "pii_applied (test_env [box 0 0 2 2, box 1 1 2 9]) no_models page4 ''aadhar''
       = [(0, 0, 2, 2), (1, 1, 2, 4)]"
    by code_simp
  have n: "\<not> in_region (0, 0, 2, 2) 3 2" "\<not> in_region (1, 1, 2, 4) 3 2"
    by (simp_all add: in_region_def)
  show ?thesis
    using masking_frame [OF r y x, of "test_env [box 0 0 2 2, box 1 1 2 9]" None no_models "''aadhar''"]
      r y x p q n
    by simp
qed

section \<open>Empty detections, unavailable models and the endpoints\<close>



lemma mask_results_no_boxes:
  "all_boxes rs = [] \<Longrightarrow> mask_results blur img rs acc = Inr acc"
  by (induction rs) (auto simp: all_boxes_simps split: option.splits)

lemma detect_and_mask_no_boxes:
  assumes "all_boxes (detected_results (fst loaded) img) = []"
  shows "fst (detect_and_mask env img loaded) = (img, 0)"
  using assms
  by (auto simp: detect_and_mask_def detected_results_def mask_results_no_boxes
      split: prod.splits sum.splits)

lemma doc_mask_no_boxes:
  assumes "all_boxes (detected_results (fst (load_model env AADHAR_MODEL_PATH model)) img) = []"
    and "list_all (\<lambda>r. orig_img r = img) (detected_results (fst (load_model env AADHAR_MODEL_PATH model)) img)"
  shows "fst (doc_mask_pii_in_image env model img) = (img, 0)"
  using assms
  by (auto simp: doc_mask_pii_in_image_def detected_results_def doc_mask_results_def
      all_boxes_simps split: prod.splits sum.splits list.splits option.splits)

text \<open>
  C3.  Masking a page for which the detector reports no box returns the page itself,
  pixel for pixel, and the count 0.  This holds for \<^verbatim>\<open>mask_pan_in_image\<close>, for the unified
  \<^verbatim>\<open>mask_pii_in_image\<close> and for \<^verbatim>\<open>mask_pii_in_image\<close> of \<^verbatim>\<open>document_masking_server.py\<close>;
  the last returns a copy of \<^verbatim>\<open>r.orig_img\<close>, which is the page when the detector's result
  carries the page it was given.
\<close>

theorem mask_no_boxes_identity:
  "(all_boxes (detected_results (fst (load_model env PAN_MODEL_PATH model)) img) = [] \<longrightarrow>
      fst (mask_pan_in_image env model img) = (img, 0))
   \<and> (all_boxes (detected_results
         (fst (if model_type = ''aadhar'' then load_aadhar_model env st else load_pan_model env st))
         img) = [] \<longrightarrow>
      fst (mask_pii_in_image env st img model_type) = (img, 0))
   \<and> (all_boxes (detected_results (fst (load_model env AADHAR_MODEL_PATH model)) img) = [] \<longrightarrow>
      list_all (\<lambda>r. orig_img r = img)
        (detected_results (fst (load_model env AADHAR_MODEL_PATH model)) img) \<longrightarrow>
      fst (doc_mask_pii_in_image env model img) = (img, 0))"
  using detect_and_mask_no_boxes [of "load_model env PAN_MODEL_PATH model" img env]
    detect_and_mask_no_boxes [of
      "if model_type = ''aadhar'' then load_aadhar_model env st else load_pan_model env st" img env]
    doc_mask_no_boxes [of env model img]
  unfolding mask_pan_in_image_def mask_pii_in_image_def
  by blast

theorem mask_no_boxes_identity_witness:
  "all_boxes (detected_results (fst (load_model (test_env []) PAN_MODEL_PATH None)) page4) = []
   \<and> all_boxes (detected_results (fst (load_aadhar_model (test_env []) no_models)) page4) = []
   \<and> all_boxes (detected_results (fst (load_model (test_env []) AADHAR_MODEL_PATH None)) page4) = []
   \<and> list_all (\<lambda>r. orig_img r = page4)
        (detected_results (fst (load_model (test_env []) AADHAR_MODEL_PATH None)) page4)
   \<and> fst (mask_pan_in_image (test_env []) None page4) = (page4, 0)
   \<and> fst (mask_pii_in_image (test_env []) no_models page4 ''aadhar'') = (page4, 0)
   \<and> fst (doc_mask_pii_in_image (test_env []) None page4) = (page4, 0)"
proof -
  have a: "all_boxes (detected_results (fst (load_model (test_env []) PAN_MODEL_PATH None)) page4) = []"
    by code_simp
  have b: "all_boxes (detected_results (fst (load_aadhar_model (test_env []) no_models)) page4) = []"
    by code_simp
  have c: "all_boxes (detected_results (fst (load_model (test_env []) AADHAR_MODEL_PATH None)) page4) = []"
    by code_simp
  have d: "list_all (\<lambda>r. orig_img r = page4)
        (detected_results (fst (load_model (test_env []) AADHAR_MODEL_PATH None)) page4)"
    by code_simp
  show ?thesis
    using mask_no_boxes_identity [of "test_env []" None page4 "''aadhar''" no_models] a b c d
    by simp
qed


lemma mask_pages_identity:
  assumes "\<And>img. mask_fn st img = ((img, 0), st)"
  shows "mask_pages mask_fn st images acc n = (acc @ images, n, st)"
  using assms by (induction images arbitrary: acc n) auto

lemma pan_unavailable:
  "YOLO env PAN_MODEL_PATH = Inl e \<Longrightarrow> mask_pan_in_image env None img = ((img, 0), None)"
  by (simp add: mask_pan_in_image_def detect_and_mask_def load_model_def)

lemma pii_unavailable_pan:
  "YOLO env PAN_MODEL_PATH = Inl e \<Longrightarrow> pan_model st = None \<Longrightarrow>
   mask_pii_in_image env st img ''pan'' = ((img, 0), st)"
  by (simp add: mask_pii_in_image_def detect_and_mask_def load_pan_model_def load_model_def)

lemma pii_unavailable_aadhar:
  "YOLO env AADHAR_MODEL_PATH = Inl e \<Longrightarrow> aadhar_model st = None \<Longrightarrow>
   mask_pii_in_image env st img ''aadhar'' = ((img, 0), st)"
  by (simp add: mask_pii_in_image_def detect_and_mask_def load_aadhar_model_def load_model_def)

lemma images_to_pdf_lookup:
  "images_to_pdf images name folder name = (if images = [] then folder name else Some (PdfFile images))"
  by (simp add: images_to_pdf_def)

lemma pii_unavailable_other:
  "YOLO env PAN_MODEL_PATH = Inl e \<Longrightarrow> pan_model st = None \<Longrightarrow> model_type \<noteq> ''aadhar'' \<Longrightarrow>
   mask_pii_in_image env st img model_type = ((img, 0), st)"
  by (simp add: mask_pii_in_image_def detect_and_mask_def load_pan_model_def load_model_def)

lemma doc_unavailable:
  "YOLO env AADHAR_MODEL_PATH = Inl e \<Longrightarrow> doc_mask_pii_in_image env None img = ((img, 0), None)"
  by (simp add: doc_mask_pii_in_image_def load_model_def)

lemma mask_endpoint_unmasked_pdf:
  assumes "\<And>i. mask_fn st i = ((i, 0), st)" and "is_pdf up" and "pdf_pages up = Inr images"
  shows "mask_endpoint mask_fn suffix up (st, folder)
    = (Success 0 (base_name up @ suffix @ ''.pdf''), st,
       images_to_pdf images (base_name up @ suffix @ ''.pdf'') folder)"
  using assms(2,3) mask_pages_identity [of mask_fn st images "[]" 0, OF assms(1)]
  by (simp add: mask_endpoint_def Let_def)

lemma mask_endpoint_unmasked_image:
  assumes "\<And>i. mask_fn st i = ((i, 0), st)" and "\<not> is_pdf up" and "imread up = Some img"
  shows "mask_endpoint mask_fn suffix up (st, folder)
    = (Success 0 (base_name up @ suffix @ ''.jpg''), st,
       folder(base_name up @ suffix @ ''.jpg'' \<mapsto> JpgFile img))"
  using assms by (simp add: mask_endpoint_def Let_def)

text \<open>
  C4.  When the model a request needs cannot be loaded (the constructor \<^verbatim>\<open>YOLO(...)\<close> for its
  weight file raises and the global is still \<open>None\<close>), processing returns every page
  unmodified with count 0 and leaves the globals as they were, and the failure is absorbed:
  neither an exception nor the 500 answer results.  This holds for the PAN model
  (\<^verbatim>\<open>mask_pan_in_image\<close> of \<^verbatim>\<open>pan_masking_server.py\<close>, and the unified \<^verbatim>\<open>mask_pii_in_image\<close> with
  any \<^verbatim>\<open>model_type\<close> other than \<^verbatim>\<open>'aadhar'\<close>) and for the Aadhaar model (\<^verbatim>\<open>mask_pii_in_image\<close> of
  \<^verbatim>\<open>document_masking_server.py\<close>, and the unified \<^verbatim>\<open>mask_pii_in_image\<close> with \<^verbatim>\<open>'aadhar'\<close>); the
  four endpoints then answer a readable document, PDF or image, with the success record,
  \<^verbatim>\<open>detections\<close> 0, and write the original pages.
\<close>

theorem model_unavailable_degrades:
  "(YOLO env PAN_MODEL_PATH = Inl e \<longrightarrow>
      mask_pan_in_image env None img = ((img, 0), None)
    \<and> (pan_model st = None \<longrightarrow> model_type \<noteq> ''aadhar'' \<longrightarrow>
         mask_pii_in_image env st img model_type = ((img, 0), st))
    \<and> (is_pdf up \<longrightarrow> pdf_pages up = Inr images \<longrightarrow>
         mask_pan_document env up (None, folder)
           = (Success 0 (base_name up @ ''_pan_masked.pdf''), None,
              images_to_pdf images (base_name up @ ''_pan_masked.pdf'') folder)
         \<and> (pan_model st = None \<longrightarrow>
              unified_mask_pan_document env up (st, folder)
                = (Success 0 (base_name up @ ''_pan_masked.pdf''), st,
                   images_to_pdf images (base_name up @ ''_pan_masked.pdf'') folder)))
    \<and> (\<not> is_pdf up \<longrightarrow> imread up = Some img \<longrightarrow>
         mask_pan_document env up (None, folder)
           = (Success 0 (base_name up @ ''_pan_masked.jpg''), None,
              folder(base_name up @ ''_pan_masked.jpg'' \<mapsto> JpgFile img))
         \<and> (pan_model st = None \<longrightarrow>
              unified_mask_pan_document env up (st, folder)
                = (Success 0 (base_name up @ ''_pan_masked.jpg''), st,
                   folder(base_name up @ ''_pan_masked.jpg'' \<mapsto> JpgFile img)))))
   \<and> (YOLO env AADHAR_MODEL_PATH = Inl e \<longrightarrow>
      doc_mask_pii_in_image env None img = ((img, 0), None)
    \<and> (aadhar_model st = None \<longrightarrow>
         mask_pii_in_image env st img ''aadhar'' = ((img, 0), st))
    \<and> (is_pdf up \<longrightarrow> pdf_pages up = Inr images \<longrightarrow>
         mask_document env up (None, folder)
           = (Success 0 (base_name up @ ''_masked.pdf''), None,
              images_to_pdf images (base_name up @ ''_masked.pdf'') folder)
         \<and> (aadhar_model st = None \<longrightarrow>
              mask_aadhar_document env up (st, folder)
                = (Success 0 (base_name up @ ''_aadhar_masked.pdf''), st,
                   images_to_pdf images (base_name up @ ''_aadhar_masked.pdf'') folder)))
    \<and> (\<not> is_pdf up \<longrightarrow> imread up = Some img \<longrightarrow>
         mask_document env up (None, folder)
           = (Success 0 (base_name up @ ''_masked.jpg''), None,
              folder(base_name up @ ''_masked.jpg'' \<mapsto> JpgFile img))
         \<and> (aadhar_model st = None \<longrightarrow>
              mask_aadhar_document env up (st, folder)
                = (Success 0 (base_name up @ ''_aadhar_masked.jpg''), st,
                   folder(base_name up @ ''_aadhar_masked.jpg'' \<mapsto> JpgFile img)))))"
proof -
  have P: "mask_pan_in_image env None i = ((i, 0), None)" if "YOLO env PAN_MODEL_PATH = Inl e" for i
    using that by (rule pan_unavailable)
  have U: "mask_pii_in_image env st i model_type = ((i, 0), st)"
    if "YOLO env PAN_MODEL_PATH = Inl e" "pan_model st = None" "model_type \<noteq> ''aadhar''" for i
    using that by (rule pii_unavailable_other)
  have U': "mask_pii_in_image env st i ''pan'' = ((i, 0), st)"
    if "YOLO env PAN_MODEL_PATH = Inl e" "pan_model st = None" for i
    using that by (rule pii_unavailable_pan)
  have D: "doc_mask_pii_in_image env None i = ((i, 0), None)"
    if "YOLO env AADHAR_MODEL_PATH = Inl e" for i
    using that by (rule doc_unavailable)
  have A: "mask_pii_in_image env st i ''aadhar'' = ((i, 0), st)"
    if "YOLO env AADHAR_MODEL_PATH = Inl e" "aadhar_model st = None" for i
    using that by (rule pii_unavailable_aadhar)
  have pan_pdf: "mask_pan_document env up (None, folder)
      = (Success 0 (base_name up @ ''_pan_masked.pdf''), None,
         images_to_pdf images (base_name up @ ''_pan_masked.pdf'') folder)"
    if "YOLO env PAN_MODEL_PATH = Inl e" "is_pdf up" "pdf_pages up = Inr images"
    using mask_endpoint_unmasked_pdf
        [of "mask_pan_in_image env" None up images "''_pan_masked''" folder, OF P [OF that(1)] that(2,3)]
    by (simp add: mask_pan_document_def)
  have pan_jpg: "mask_pan_document env up (None, folder)
      = (Success 0 (base_name up @ ''_pan_masked.jpg''), None,
         folder(base_name up @ ''_pan_masked.jpg'' \<mapsto> JpgFile img))"
    if "YOLO env PAN_MODEL_PATH = Inl e" "\<not> is_pdf up" "imread up = Some img"
    using mask_endpoint_unmasked_image
        [of "mask_pan_in_image env" None up img "''_pan_masked''" folder, OF P [OF that(1)] that(2,3)]
    by (simp add: mask_pan_document_def)
  have upan_pdf: "unified_mask_pan_document env up (st, folder)
      = (Success 0 (base_name up @ ''_pan_masked.pdf''), st,
         images_to_pdf images (base_name up @ ''_pan_masked.pdf'') folder)"
    if "YOLO env PAN_MODEL_PATH = Inl e" "pan_model st = None" "is_pdf up" "pdf_pages up = Inr images"
    using mask_endpoint_unmasked_pdf
        [of "\<lambda>s i. mask_pii_in_image env s i ''pan''" st up images "''_pan_masked''" folder,
         OF U' [OF that(1,2)] that(3,4)]
    by (simp add: unified_mask_pan_document_def)
  have upan_jpg: "unified_mask_pan_document env up (st, folder)
      = (Success 0 (base_name up @ ''_pan_masked.jpg''), st,
         folder(base_name up @ ''_pan_masked.jpg'' \<mapsto> JpgFile img))"
    if "YOLO env PAN_MODEL_PATH = Inl e" "pan_model st = None" "\<not> is_pdf up" "imread up = Some img"
    using mask_endpoint_unmasked_image
        [of "\<lambda>s i. mask_pii_in_image env s i ''pan''" st up img "''_pan_masked''" folder,
         OF U' [OF that(1,2)] that(3,4)]
    by (simp add: unified_mask_pan_document_def)
  have doc_pdf: "mask_document env up (None, folder)
      = (Success 0 (base_name up @ ''_masked.pdf''), None,
         images_to_pdf images (base_name up @ ''_masked.pdf'') folder)"
    if "YOLO env AADHAR_MODEL_PATH = Inl e" "is_pdf up" "pdf_pages up = Inr images"
    using mask_endpoint_unmasked_pdf
        [of "doc_mask_pii_in_image env" None up images "''_masked''" folder, OF D [OF that(1)] that(2,3)]
    by (simp add: mask_document_def)
  have doc_jpg: "mask_document env up (None, folder)
      = (Success 0 (base_name up @ ''_masked.jpg''), None,
         folder(base_name up @ ''_masked.jpg'' \<mapsto> JpgFile img))"
    if "YOLO env AADHAR_MODEL_PATH = Inl e" "\<not> is_pdf up" "imread up = Some img"
    using mask_endpoint_unmasked_image
        [of "doc_mask_pii_in_image env" None up img "''_masked''" folder, OF D [OF that(1)] that(2,3)]
    by (simp add: mask_document_def)
  have aad_pdf: "mask_aadhar_document env up (st, folder)
      = (Success 0 (base_name up @ ''_aadhar_masked.pdf''), st,
         images_to_pdf images (base_name up @ ''_aadhar_masked.pdf'') folder)"
    if "YOLO env AADHAR_MODEL_PATH = Inl e" "aadhar_model st = None" "is_pdf up"
      "pdf_pages up = Inr images"
    using mask_endpoint_unmasked_pdf
        [of "\<lambda>s i. mask_pii_in_image env s i ''aadhar''" st up images "''_aadhar_masked''" folder,
         OF A [OF that(1,2)] that(3,4)]
    by (simp add: mask_aadhar_document_def)
  have aad_jpg: "mask_aadhar_document env up (st, folder)
      = (Success 0 (base_name up @ ''_aadhar_masked.jpg''), st,
         folder(base_name up @ ''_aadhar_masked.jpg'' \<mapsto> JpgFile img))"
    if "YOLO env AADHAR_MODEL_PATH = Inl e" "aadhar_model st = None" "\<not> is_pdf up"
      "imread up = Some img"
    using mask_endpoint_unmasked_image
        [of "\<lambda>s i. mask_pii_in_image env s i ''aadhar''" st up img "''_aadhar_masked''" folder,
         OF A [OF that(1,2)] that(3,4)]
    by (simp add: mask_aadhar_document_def)
  show ?thesis
    using P [of img] U [of img] D [of img] A [of img]
      pan_pdf pan_jpg upan_pdf upan_jpg doc_pdf doc_jpg aad_pdf aad_jpg
    by blast
qed

text \<open>
  With a constructor that always raises: a two-page PDF and a photo, through each of the four
  endpoints.
\<close>

theorem model_unavailable_degrades_witness:
  "YOLO broken_env PAN_MODEL_PATH = Inl LoadError \<and> YOLO broken_env AADHAR_MODEL_PATH = Inl LoadError
   \<and> pan_model no_models = None \<and> aadhar_model no_models = None
   \<and> is_pdf two_page_pdf \<and> pdf_pages two_page_pdf = Inr [page4, page4]
   \<and> \<not> is_pdf photo \<and> imread photo = Some page4
   \<and> mask_pan_in_image broken_env None page4 = ((page4, 0), None)
   \<and> doc_mask_pii_in_image broken_env None page4 = ((page4, 0), None)
   \<and> mask_pii_in_image broken_env no_models page4 ''pan'' = ((page4, 0), no_models)
   \<and> mask_pii_in_image broken_env no_models page4 ''aadhar'' = ((page4, 0), no_models)
   \<and> fst (mask_pan_document broken_env two_page_pdf (None, empty_folder))
       = Success 0 ''card_pan_masked.pdf''
   \<and> snd (snd (mask_pan_document broken_env two_page_pdf (None, empty_folder)))
       ''card_pan_masked.pdf'' = Some (PdfFile [page4, page4])
   \<and> fst (unified_mask_pan_document broken_env two_page_pdf (no_models, empty_folder))
       = Success 0 ''card_pan_masked.pdf''
   \<and> snd (snd (unified_mask_pan_document broken_env two_page_pdf (no_models, empty_folder)))
       ''card_pan_masked.pdf'' = Some (PdfFile [page4, page4])
   \<and> fst (mask_document broken_env two_page_pdf (None, empty_folder))
       = Success 0 ''card_masked.pdf''
   \<and> snd (snd (mask_document broken_env two_page_pdf (None, empty_folder)))
       ''card_masked.pdf'' = Some (PdfFile [page4, page4])
   \<and> fst (mask_aadhar_document broken_env two_page_pdf (no_models, empty_folder))
       = Success 0 ''card_aadhar_masked.pdf''
   \<and> snd (snd (mask_aadhar_document broken_env two_page_pdf (no_models, empty_folder)))
       ''card_aadhar_masked.pdf'' = Some (PdfFile [page4, page4])
   \<and> mask_pan_document broken_env photo (None, empty_folder)
       = (Success 0 ''photo_pan_masked.jpg'', None,
          empty_folder(''photo_pan_masked.jpg'' \<mapsto> JpgFile page4))
   \<and> unified_mask_pan_document broken_env photo (no_models, empty_folder)
       = (Success 0 ''photo_pan_masked.jpg'', no_models,
          empty_folder(''photo_pan_masked.jpg'' \<mapsto> JpgFile page4))
   \<and> mask_document broken_env photo (None, empty_folder)
       = (Success 0 ''photo_masked.jpg'', None,
          empty_folder(''photo_masked.jpg'' \<mapsto> JpgFile page4))
   \<and> mask_aadhar_document broken_env photo (no_models, empty_folder)
       = (Success 0 ''photo_aadhar_masked.jpg'', no_models,
          empty_folder(''photo_aadhar_masked.jpg'' \<mapsto> JpgFile page4))"
proof -
  have y: "YOLO broken_env PAN_MODEL_PATH = Inl LoadError"
    "YOLO broken_env AADHAR_MODEL_PATH = Inl LoadError"
    by (simp_all add: broken_env_def)
  have n: "pan_model no_models = None" "aadhar_model no_models = None"
    by (simp_all add: no_models_def)
  have i: "is_pdf two_page_pdf" "pdf_pages two_page_pdf = Inr [page4, page4]"
    "base_name two_page_pdf = ''card''"
    by (simp_all add: two_page_pdf_def)
  have j: "\<not> is_pdf photo" "imread photo = Some page4" "base_name photo = ''photo''"
    by (simp_all add: photo_def)
  have t: "''pan'' \<noteq> ''aadhar''" by simp
  show ?thesis
    using model_unavailable_degrades
        [of broken_env LoadError page4 no_models "''pan''" two_page_pdf "[page4, page4]" empty_folder]
      model_unavailable_degrades
        [of broken_env LoadError page4 no_models "''pan''" photo "[]" empty_folder]
      y n i j t
    by (simp add: images_to_pdf_lookup)
qed

text \<open>
  C1, evaluated on \<^verbatim>\<open>document_masking_server.py\<close>.  The page is 4 by 4; the detector reports
  the box (0, 0, 2, 2) and the box (1.2, 1, 1.8, 3), whose corners truncate to x1 = x2 = 1.
  One box survives clipping.  \<^verbatim>\<open>mask_pii_in_image\<close> of this server counts \<^verbatim>\<open>len(boxes)\<close>
  before the loop and has no clipping: whatever the blur does on the empty region, the
  count it returns is never 1 (it is 2 when the loop completes and 0 when an exception
  leaves it); with a blur that raises on an empty array, as OpenCV's does, the page comes
  back unmasked with count 0.  \<^verbatim>\<open>mask_pan_in_image\<close> masks the first box and counts 1.
\<close>

theorem doc_count_is_len_boxes:
  "length (applied_regions page4 [box 0 0 2 2, box 1.2 1 1.8 3]) = 1
   \<and> snd (fst (doc_mask_pii_in_image (blur_env [box 0 0 2 2, box 1.2 1 1.8 3] blur) None page4)) \<noteq> 1
   \<and> fst (doc_mask_pii_in_image (test_env [box 0 0 2 2, box 1.2 1 1.8 3]) None page4) = (page4, 0)
   \<and> fst (mask_pan_in_image (test_env [box 0 0 2 2, box 1.2 1 1.8 3]) None page4)
       = ([[5, 5, 12, 13], [10, 10, 22, 23], [30, 31, 32, 33], [40, 41, 42, 43]], 1)"
proof -
  have a: "length (applied_regions page4 [box 0 0 2 2, box 1.2 1 1.8 3]) = 1"
    by code_simp
  have b: "snd (fst (doc_mask_pii_in_image (blur_env [box 0 0 2 2, box 1.2 1 1.8 3] blur) None page4)) \<noteq> 1"
    by (simp add: doc_mask_pii_in_image_def blur_env_def load_model_def fixed_detector_def
        doc_mask_results_def split: sum.splits)
  have c: "fst (doc_mask_pii_in_image (test_env [box 0 0 2 2, box 1.2 1 1.8 3]) None page4) = (page4, 0)"
    by code_simp
  have d: "fst (mask_pan_in_image (test_env [box 0 0 2 2, box 1.2 1 1.8 3]) None page4)
       = ([[5, 5, 12, 13], [10, 10, 22, 23], [30, 31, 32, 33], [40, 41, 42, 43]], 1)"
    by code_simp
  show ?thesis using a b c d by blast
qed

text \<open>
  C2, evaluated on \<^verbatim>\<open>document_masking_server.py\<close>.  The detector reports the box
  (-3, 0, -1, 2) on the 4 by 4 page.  Clipped to the page it is (0, 0, -1, 2), of width
  below 0, so it does not survive.  \<^verbatim>\<open>mask_pii_in_image\<close> of this server slices with the
  coordinates as they are; numpy counts the negative bounds from the right edge, columns 1
  and 2 of rows 0 and 1 are blurred, and the box is counted.  \<^verbatim>\<open>mask_pan_in_image\<close> skips
  the box.
\<close>

theorem doc_slices_unclipped:
  "clip_box page4 (box (-3) 0 (-1) 2) = (0, 0, -1, 2)
   \<and> \<not> survives page4 (box (-3) 0 (-1) 2)
   \<and> fst (doc_mask_pii_in_image (test_env [box (-3) 0 (-1) 2]) None page4)
       = ([[10, 5, 6, 13], [20, 10, 11, 23], [30, 31, 32, 33], [40, 41, 42, 43]], 1)
   \<and> fst (mask_pan_in_image (test_env [box (-3) 0 (-1) 2]) None page4) = (page4, 0)"
proof -
  have a: "clip_box page4 (box (-3) 0 (-1) 2) = (0, 0, -1, 2)"
    by code_simp
  have b: "\<not> survives page4 (box (-3) 0 (-1) 2)"
    by code_simp
  have c: "fst (doc_mask_pii_in_image (test_env [box (-3) 0 (-1) 2]) None page4)
       = ([[10, 5, 6, 13], [20, 10, 11, 23], [30, 31, 32, 33], [40, 41, 42, 43]], 1)"
    by code_simp
  have d: "fst (mask_pan_in_image (test_env [box (-3) 0 (-1) 2]) None page4) = (page4, 0)"
    by code_simp
  show ?thesis using a b c d by blast
qed

text \<open>
  C8, evaluated on the PDF branch.  For a PDF that opens with no pages the loop over the
  pages does nothing, \<^verbatim>\<open>images_to_pdf\<close> writes nothing, and the endpoint answers with the
  success record, \<^verbatim>\<open>detections\<close> 0, naming an output file that was never written.  The image
  branch does reject a file that does not decode.
\<close>

theorem empty_pdf_reported_success:
  "mask_document env empty_pdf (model, folder) = (Success 0 ''scan_masked.pdf'', model, folder)
   \<and> mask_pan_document env empty_pdf (model, folder) = (Success 0 ''scan_pan_masked.pdf'', model, folder)
   \<and> mask_document env unreadable_image (model, folder)
       = (Error400 ''Could not read image file'', model, folder)"
  by (simp add: mask_document_def mask_pan_document_def mask_endpoint_def empty_pdf_def
      unreadable_image_def images_to_pdf_def Let_def)

section \<open>Overlapping boxes\<close>



lemma nth_crop_row:
  assumes "r0 + i < length img" "i < r1 - r0"
  shows "crop img (r0, r1) cols ! i = take (snd cols - fst cols) (drop (fst cols) (img ! (r0 + i)))"
proof -
  have "r0 \<le> length img" using assms by simp
  then show ?thesis using assms by (simp add: crop_def)
qed

lemma crop_paste_inner:
  assumes "r0 \<le> s0" "s0 \<le> s1" "s1 \<le> r1" "r1 \<le> length img" "length v = r1 - r0"
    and "c0 \<le> d0" "d0 \<le> d1" "d1 \<le> c1" "\<forall>y < length img. c1 \<le> length (img ! y)"
    and "\<forall>vrow \<in> set v. length vrow = c1 - c0"
  shows "crop (paste img (r0, r1) (c0, c1) v) (s0, s1) (d0, d1)
           = crop v (s0 - r0, s1 - r0) (d0 - c0, d1 - c0)"
proof (rule nth_equalityI)
  have lp: "length (paste img (r0, r1) (c0, c1) v) = length img"
    using assms by (simp add: length_paste)
  show len: "length (crop (paste img (r0, r1) (c0, c1) v) (s0, s1) (d0, d1))
      = length (crop v (s0 - r0, s1 - r0) (d0 - c0, d1 - c0))"
    using assms lp by (simp add: crop_def)
  fix i assume "i < length (crop (paste img (r0, r1) (c0, c1) v) (s0, s1) (d0, d1))"
  then have i: "i < s1 - s0"
    using assms lp by (simp add: crop_def)
  have y: "s0 + i < length img" "r0 \<le> s0 + i" "s0 + i < r1"
    using i assms by simp_all
  have row: "paste img (r0, r1) (c0, c1) v ! (s0 + i)
      = take c0 (img ! (s0 + i)) @ v ! (s0 + i - r0) @ drop c1 (img ! (s0 + i))"
    using nth_paste_row [of r0 r1 img v "s0 + i" c0 c1] assms y by simp
  have vi: "s0 + i - r0 < length v" using y assms by simp
  then have lv: "length (v ! (s0 + i - r0)) = c1 - c0" using assms(10) by simp
  have lc: "c0 \<le> length (img ! (s0 + i))" using assms y by (meson le_trans)
  have l: "crop (paste img (r0, r1) (c0, c1) v) (s0, s1) (d0, d1) ! i
      = take (d1 - d0) (drop d0 (paste img (r0, r1) (c0, c1) v ! (s0 + i)))"
    using i lp y assms by (simp add: crop_def)
  have r: "crop v (s0 - r0, s1 - r0) (d0 - c0, d1 - c0) ! i
      = take (d1 - d0) (drop (d0 - c0) (v ! (s0 + i - r0)))"
  proof -
    have e1: "s0 - r0 + i = s0 + i - r0" using assms by simp
    have e2: "d1 - c0 - (d0 - c0) = d1 - d0" using assms by simp
    have p1: "s0 - r0 + i < length v" using vi e1 by simp
    have p2: "i < s1 - r0 - (s0 - r0)" using i assms by simp
    have "crop v (s0 - r0, s1 - r0) (d0 - c0, d1 - c0) ! i
        = take (snd (d0 - c0, d1 - c0) - fst (d0 - c0, d1 - c0))
            (drop (fst (d0 - c0, d1 - c0)) (v ! (s0 - r0 + i)))"
      using p1 p2 by (rule nth_crop_row)
    then show ?thesis
      unfolding fst_conv snd_conv e1 e2 .
  qed
  have "take (d1 - d0) (drop d0 (take c0 (img ! (s0 + i)) @ v ! (s0 + i - r0) @ drop c1 (img ! (s0 + i))))
      = take (d1 - d0) (drop (d0 - c0) (v ! (s0 + i - r0)))"
    using lv lc assms(6-8) by (simp add: min_def)
  then show "crop (paste img (r0, r1) (c0, c1) v) (s0, s1) (d0, d1) ! i
      = crop v (s0 - r0, s1 - r0) (d0 - c0, d1 - c0) ! i"
    using l r row by simp
qed

lemma crop_full:
  assumes "length v = n" "\<forall>vrow \<in> set v. length vrow = m"
  shows "crop v (0, n) (0, m) = v"
  using assms by (simp add: crop_def map_idI)

lemma map_length_crop:
  assumes "r0 \<le> r1" "r1 \<le> length img" "c0 \<le> c1" "\<forall>y < length img. c1 \<le> length (img ! y)"
  shows "map length (crop img (r0, r1) (c0, c1)) = replicate (r1 - r0) (c1 - c0)"
proof (rule nth_equalityI)
  show "length (map length (crop img (r0, r1) (c0, c1))) = length (replicate (r1 - r0) (c1 - c0))"
    using assms by (simp add: crop_def)
  fix i assume "i < length (map length (crop img (r0, r1) (c0, c1)))"
  then have i: "i < r1 - r0" using assms by (simp add: crop_def)
  then have y: "r0 + i < length img" using assms by simp
  then have c: "c1 \<le> length (img ! (r0 + i))" using assms by simp
  have "crop img (r0, r1) (c0, c1) ! i = take (c1 - c0) (drop c0 (img ! (r0 + i)))"
    using nth_crop_row [OF y i, of "(c0, c1)"] by simp
  then have "length (crop img (r0, r1) (c0, c1) ! i) = c1 - c0"
    using c assms(3) by (auto simp: min_def)
  moreover have "i < length (crop img (r0, r1) (c0, c1))"
    using i assms by (simp add: crop_def)
  ultimately show "map length (crop img (r0, r1) (c0, c1)) ! i = replicate (r1 - r0) (c1 - c0) ! i"
    using i by simp
qed

lemma lengths_of_replicate:
  assumes "map length v = replicate n m"
  shows "length v = n" "\<forall>vrow \<in> set v. length vrow = m"
proof -
  show "length v = n" using assms by (metis length_map length_replicate)
  show "\<forall>vrow \<in> set v. length vrow = m"
  proof
    fix vrow assume "vrow \<in> set v"
    then have "length vrow \<in> set (map length v)" by simp
    then show "length vrow = m" using assms by simp
  qed
qed


lemma set_roi_clipped:
  assumes rect: "rectangular img"
    and b: "0 \<le> x1" "x1 \<le> x2" "x2 \<le> int (shape1 img)" "0 \<le> y1" "y1 \<le> y2" "y2 \<le> int (shape0 img)"
    and sv: "map length v = map length (get_roi img y1 y2 x1 x2)"
  shows "set_roi img y1 y2 x1 x2 v = Inr (paste img (nat y1, nat y2) (nat x1, nat x2) v)"
    and "length v = nat y2 - nat y1"
    and "\<forall>vrow \<in> set v. length vrow = nat x2 - nat x1"
    and "map length (paste img (nat y1, nat y2) (nat x1, nat x2) v) = map length img"
proof -
  have rows: "nat y1 \<le> nat y2" "nat y2 \<le> length img"
    using b by (simp_all add: shape0_def)
  have cols: "nat x1 \<le> nat x2" "nat x2 \<le> shape1 img"
    using b by simp_all
  have w: "\<forall>y < length img. nat x2 \<le> length (img ! y)"
    using rect cols by (simp add: rectangular_nth)
  have "map length v = replicate (nat y2 - nat y1) (nat x2 - nat x1)"
    using sv get_roi_clipped [OF b] map_length_crop [OF rows cols(1) w] by simp
  from lengths_of_replicate [OF this]
  show lv: "length v = nat y2 - nat y1" and lr: "\<forall>vrow \<in> set v. length vrow = nat x2 - nat x1"
    by simp_all
  show "set_roi img y1 y2 x1 x2 v = Inr (paste img (nat y1, nat y2) (nat x1, nat x2) v)"
    using lv lr b by (simp add: set_roi_def slice_range_clipped list_all_iff)
  show "map length (paste img (nat y1, nat y2) (nat x1, nat x2) v) = map length img"
    using rows lv cols(1) w lr by (rule map_length_paste)
qed

lemma get_roi_after_set_roi:
  assumes rect: "rectangular img"
    and a: "0 \<le> ax1" "ax1 \<le> bx1" "bx1 < bx2" "bx2 \<le> ax2" "ax2 \<le> int (shape1 img)"
           "0 \<le> ay1" "ay1 \<le> by1" "by1 < by2" "by2 \<le> ay2" "ay2 \<le> int (shape0 img)"
    and sv: "map length v = map length (get_roi img ay1 ay2 ax1 ax2)"
  shows "get_roi (paste img (nat ay1, nat ay2) (nat ax1, nat ax2) v) by1 by2 bx1 bx2
           = get_roi v (by1 - ay1) (by2 - ay1) (bx1 - ax1) (bx2 - ax1)"
proof -
  let ?p = "paste img (nat ay1, nat ay2) (nat ax1, nat ax2) v"
  have ba: "0 \<le> ax1" "ax1 \<le> ax2" "ax2 \<le> int (shape1 img)" "0 \<le> ay1" "ay1 \<le> ay2" "ay2 \<le> int (shape0 img)"
    using a by simp_all
  note sr = set_roi_clipped [OF rect ba sv]
  have sp: "shape0 ?p = shape0 img" "shape1 ?p = shape1 img"
    using shape_of_lengths [OF sr(4)] by simp_all
  have l: "get_roi ?p by1 by2 bx1 bx2 = crop ?p (nat by1, nat by2) (nat bx1, nat bx2)"
    using a sp by (intro get_roi_clipped) simp_all
  have vne: "v \<noteq> []" using sr(2) a by auto
  then have "hd v \<in> set v" by simp
  then have "length (hd v) = nat ax2 - nat ax1" using sr(3) by blast
  then have s1: "shape1 v = nat ax2 - nat ax1"
    using vne by (cases v) (simp_all add: shape1_def)
  have s0: "shape0 v = nat ay2 - nat ay1"
    using sr(2) by (simp add: shape0_def)
  have r: "get_roi v (by1 - ay1) (by2 - ay1) (bx1 - ax1) (bx2 - ax1)
      = crop v (nat (by1 - ay1), nat (by2 - ay1)) (nat (bx1 - ax1), nat (bx2 - ax1))"
    using a s0 s1 by (intro get_roi_clipped) simp_all
  have "nat ax2 \<le> shape1 img" using a by linarith
  then have w: "\<forall>y < length img. nat ax2 \<le> length (img ! y)"
    using rect by (simp add: rectangular_nth)
  have "crop ?p (nat by1, nat by2) (nat bx1, nat bx2)
      = crop v (nat by1 - nat ay1, nat by2 - nat ay1) (nat bx1 - nat ax1, nat bx2 - nat ax1)"
  proof (rule crop_paste_inner)
    show "nat ay1 \<le> nat by1" "nat by1 \<le> nat by2" "nat by2 \<le> nat ay2" using a by simp_all
    show "nat ay2 \<le> length img" using a by (simp add: shape0_def)
    show "length v = nat ay2 - nat ay1" by (rule sr(2))
    show "nat ax1 \<le> nat bx1" "nat bx1 \<le> nat bx2" "nat bx2 \<le> nat ax2" using a by simp_all
    show "\<forall>y < length img. nat ax2 \<le> length (img ! y)" by (rule w)
    show "\<forall>vrow \<in> set v. length vrow = nat ax2 - nat ax1" by (rule sr(3))
  qed
  moreover have "nat by1 - nat ay1 = nat (by1 - ay1)" "nat by2 - nat ay1 = nat (by2 - ay1)"
    "nat bx1 - nat ax1 = nat (bx1 - ax1)" "nat bx2 - nat ax1 = nat (bx2 - ax1)"
    using a by simp_all
  ultimately show ?thesis using l r by simp
qed

lemma get_roi_of_set_roi_same:
  assumes rect: "rectangular img"
    and b: "0 \<le> x1" "x1 < x2" "x2 \<le> int (shape1 img)" "0 \<le> y1" "y1 < y2" "y2 \<le> int (shape0 img)"
    and sv: "map length v = map length (get_roi img y1 y2 x1 x2)"
  shows "get_roi (paste img (nat y1, nat y2) (nat x1, nat x2) v) y1 y2 x1 x2 = v"
proof -
  have bb: "0 \<le> x1" "x1 \<le> x2" "x2 \<le> int (shape1 img)" "0 \<le> y1" "y1 \<le> y2" "y2 \<le> int (shape0 img)"
    using b by simp_all
  note sr = set_roi_clipped [OF rect bb sv]
  have vne: "v \<noteq> []" using sr(2) b by auto
  then have "hd v \<in> set v" by simp
  then have "length (hd v) = nat x2 - nat x1" using sr(3) by blast
  then have s1: "shape1 v = nat x2 - nat x1"
    using vne by (cases v) (simp_all add: shape1_def)
  have s0: "shape0 v = nat y2 - nat y1"
    using sr(2) by (simp add: shape0_def)
  have "get_roi (paste img (nat y1, nat y2) (nat x1, nat x2) v) y1 y2 x1 x2
      = get_roi v (y1 - y1) (y2 - y1) (x1 - x1) (x2 - x1)"
    using rect b sv by (intro get_roi_after_set_roi) simp_all
  also have "\<dots> = crop v (nat 0, nat (y2 - y1)) (nat 0, nat (x2 - x1))"
    using b s0 s1 get_roi_clipped [of 0 "x2 - x1" v 0 "y2 - y1"] by simp
  also have "\<dots> = v"
    using crop_full [of v "nat y2 - nat y1" "nat x2 - nat x1"] sr(2,3) b
    by (simp add: nat_diff_distrib)
  finally show ?thesis .
qed


lemma clip_box_inside:
  assumes "box_ints d = (x1, y1, x2, y2)" "0 \<le> x1" "0 \<le> y1" "x2 \<le> int (shape1 img)" "y2 \<le> int (shape0 img)"
  shows "clip_box img d = (x1, y1, x2, y2)"
  using assms by (simp add: clip_box_def)

lemma two_nested_boxes:
  assumes rect: "rectangular img"
    and a: "box_ints a = (ax1, ay1, ax2, ay2)" and b: "box_ints b = (bx1, by1, bx2, by2)"
    and inside: "0 \<le> ax1" "ax1 \<le> bx1" "bx1 < bx2" "bx2 \<le> ax2" "ax2 \<le> int (shape1 img)"
                "0 \<le> ay1" "ay1 \<le> by1" "by1 < by2" "by2 \<le> ay2" "ay2 \<le> int (shape0 img)"
    and blur_a: "blur (get_roi img ay1 ay2 ax1 ax2) = Inr blurred_a"
    and shape_a: "map length blurred_a = map length (get_roi img ay1 ay2 ax1 ax2)"
    and blur_b: "blur (get_roi blurred_a (by1 - ay1) (by2 - ay1) (bx1 - ax1) (bx2 - ax1)) = Inr blurred_b"
    and shape_b: "map length blurred_b
        = map length (get_roi blurred_a (by1 - ay1) (by2 - ay1) (bx1 - ax1) (bx2 - ax1))"
  shows "\<exists>out. mask_boxes blur img [a, b] (img, 0) = Inr (out, 2)
           \<and> doc_blur_boxes blur [a, b] img = Inr out
           \<and> get_roi out by1 by2 bx1 bx2 = blurred_b"
proof -
  let ?m1 = "paste img (nat ay1, nat ay2) (nat ax1, nat ax2) blurred_a"
  let ?out = "paste ?m1 (nat by1, nat by2) (nat bx1, nat bx2) blurred_b"
  have ba: "0 \<le> ax1" "ax1 \<le> ax2" "ax2 \<le> int (shape1 img)" "0 \<le> ay1" "ay1 \<le> ay2" "ay2 \<le> int (shape0 img)"
    using inside by simp_all
  note sa = set_roi_clipped [OF rect ba shape_a]
  have rm: "rectangular ?m1" and sm: "shape0 ?m1 = shape0 img" "shape1 ?m1 = shape1 img"
    using shape_of_lengths [OF sa(4)] rect by simp_all
  have g: "get_roi ?m1 by1 by2 bx1 bx2
      = get_roi blurred_a (by1 - ay1) (by2 - ay1) (bx1 - ax1) (bx2 - ax1)"
    using rect inside shape_a by (rule get_roi_after_set_roi)
  have bb: "0 \<le> bx1" "bx1 < bx2" "bx2 \<le> int (shape1 ?m1)" "0 \<le> by1" "by1 < by2" "by2 \<le> int (shape0 ?m1)"
    using inside sm by simp_all
  have bb': "0 \<le> bx1" "bx1 \<le> bx2" "bx2 \<le> int (shape1 ?m1)" "0 \<le> by1" "by1 \<le> by2" "by2 \<le> int (shape0 ?m1)"
    using bb by simp_all
  have shape_b': "map length blurred_b = map length (get_roi ?m1 by1 by2 bx1 bx2)"
    using shape_b g by simp
  note sb = set_roi_clipped [OF rm bb' shape_b']
  have fin: "get_roi ?out by1 by2 bx1 bx2 = blurred_b"
    using rm bb shape_b' by (rule get_roi_of_set_roi_same)
  have ca: "clip_box img a = (ax1, ay1, ax2, ay2)"
    using a inside by (intro clip_box_inside) simp_all
  have cb: "clip_box img b = (bx1, by1, bx2, by2)"
    using b inside by (intro clip_box_inside) simp_all
  have step1: "mask_boxes blur img [a, b] (img, 0) = mask_boxes blur img [b] (?m1, 1)"
    using mask_boxes_step [OF rect refl ca, of blur "[b]" 0] inside blur_a sa(1) by simp
  have step2: "mask_boxes blur img [b] (?m1, 1) = mask_boxes blur img [] (?out, 2)"
    using mask_boxes_step [OF rm sa(4) cb, of blur "[]" 1] inside blur_b g sb(1) by simp
  have pan: "mask_boxes blur img [a, b] (img, 0) = Inr (?out, 2)"
    using step1 step2 by simp
  have doc: "doc_blur_boxes blur [a, b] img = Inr ?out"
    using a b blur_a blur_b g sa(1) sb(1) by simp
  show ?thesis using pan doc fin by blast
qed

text \<open>
  C6.  Boxes are blurred one after the other in the detector's order, each on the page
  as the earlier boxes left it, with no merging: when the detector reports box A and then
  box B, with B inside A and both inside the page, both are counted (the count is 2) and
  the final pixels of B's region are the blur of the part of the already blurred A
  region that B covers, that is blur(blur(original)) there.  This holds for
  \<^verbatim>\<open>mask_pan_in_image\<close> and for \<^verbatim>\<open>mask_pii_in_image\<close> of \<^verbatim>\<open>document_masking_server.py\<close>, for
  a blur that returns an array of the shape of its input.
\<close>

theorem overlapping_boxes_blurred_twice:
  assumes "rectangular img"
    and "m img = Inr [\<lparr>orig_img = img, boxes = Some [a, b]\<rparr>]"
    and "box_ints a = (ax1, ay1, ax2, ay2)" and "box_ints b = (bx1, by1, bx2, by2)"
    and "0 \<le> ax1" "ax1 \<le> bx1" "bx1 < bx2" "bx2 \<le> ax2" "ax2 \<le> int (shape1 img)"
        "0 \<le> ay1" "ay1 \<le> by1" "by1 < by2" "by2 \<le> ay2" "ay2 \<le> int (shape0 img)"
    and "GaussianBlur env (get_roi img ay1 ay2 ax1 ax2) = Inr blurred_a"
    and "map length blurred_a = map length (get_roi img ay1 ay2 ax1 ax2)"
    and "GaussianBlur env (get_roi blurred_a (by1 - ay1) (by2 - ay1) (bx1 - ax1) (bx2 - ax1))
           = Inr blurred_b"
    and "map length blurred_b
           = map length (get_roi blurred_a (by1 - ay1) (by2 - ay1) (bx1 - ax1) (bx2 - ax1))"
  shows "\<exists>out. fst (mask_pan_in_image env (Some m) img) = (out, 2)
           \<and> fst (doc_mask_pii_in_image env (Some m) img) = (out, 2)
           \<and> get_roi out by1 by2 bx1 bx2 = blurred_b"
proof -
  obtain out where
    pan: "mask_boxes (GaussianBlur env) img [a, b] (img, 0) = Inr (out, 2)" and
    doc: "doc_blur_boxes (GaussianBlur env) [a, b] img = Inr out" and
    fin: "get_roi out by1 by2 bx1 bx2 = blurred_b"
    using two_nested_boxes [OF assms(1) assms(3-)] by blast
  have "fst (mask_pan_in_image env (Some m) img) = (out, 2)"
    using assms(2) pan
    by (simp add: mask_pan_in_image_def detect_and_mask_def load_model_def)
  moreover have "fst (doc_mask_pii_in_image env (Some m) img) = (out, 2)"
    using assms(2) doc
    by (simp add: doc_mask_pii_in_image_def doc_mask_results_def load_model_def)
  ultimately show ?thesis using fin by blast
qed

theorem overlapping_boxes_blurred_twice_witness:
  "rectangular page4
   \<and> fixed_detector nested_boxes page4 = Inr [\<lparr>orig_img = page4, boxes = Some [box 0 0 3 3, box 1 1 2 3]\<rparr>]
   \<and> box_ints (box 0 0 3 3) = (0, 0, 3, 3) \<and> box_ints (box 1 1 2 3) = (1, 1, 2, 3)
   \<and> GaussianBlur (test_env nested_boxes) (get_roi page4 0 3 0 3)
       = Inr [[5, 5, 6], [10, 10, 11], [15, 15, 16]]
   \<and> GaussianBlur (test_env nested_boxes)
         (get_roi [[5, 5, 6], [10, 10, 11], [15, 15, 16]] (1 - 0) (3 - 0) (1 - 0) (2 - 0))
       = Inr [[5], [7]]
   \<and> (\<exists>out. fst (mask_pan_in_image (test_env nested_boxes) (Some (fixed_detector nested_boxes)) page4)
               = (out, 2)
           \<and> fst (doc_mask_pii_in_image (test_env nested_boxes) (Some (fixed_detector nested_boxes)) page4)
               = (out, 2)
           \<and> get_roi out 1 3 1 2 = [[5], [7]])"
proof -
  have r: "rectangular page4" by code_simp
  have d: "fixed_detector nested_boxes page4
      = Inr [\<lparr>orig_img = page4, boxes = Some [box 0 0 3 3, box 1 1 2 3]\<rparr>]"
    by (simp add: fixed_detector_def nested_boxes_def)
  have a: "box_ints (box 0 0 3 3) = (0, 0, 3, 3)" by code_simp
  have b: "box_ints (box 1 1 2 3) = (1, 1, 2, 3)" by code_simp
  have i: "(0::int) \<le> 0" "(0::int) \<le> 1" "(1::int) < 2" "(2::int) \<le> 3" "3 \<le> int (shape1 page4)"
    "(1::int) < 3" "(3::int) \<le> 3" "3 \<le> int (shape0 page4)"
    by (simp_all add: page4_def shape0_def shape1_def)
  have ba: "GaussianBlur (test_env nested_boxes) (get_roi page4 0 3 0 3)
       = Inr [[5, 5, 6], [10, 10, 11], [15, 15, 16]]"
    by code_simp
  have sa: "map length [[5, 5, 6], [10, 10, 11], [15, 15, 16 :: nat]]
      = map length (get_roi page4 0 3 0 3)"
    by code_simp
  have bb: "GaussianBlur (test_env nested_boxes)
         (get_roi [[5, 5, 6], [10, 10, 11], [15, 15, 16]] (1 - 0) (3 - 0) (1 - 0) (2 - 0))
       = Inr [[5], [7]]"
    by code_simp
  have sb: "map length [[5], [7 :: nat]]
      = map length (get_roi [[5, 5, 6], [10, 10, 11], [15, 15, 16 :: nat]] (1 - 0) (3 - 0) (1 - 0) (2 - 0))"
    by code_simp
  show ?thesis
    using overlapping_boxes_blurred_twice
      [where img = page4 and m = "fixed_detector nested_boxes" and env = "test_env nested_boxes",
       OF r d a b i(1) i(2) i(3) i(4) i(5) i(1) i(2) i(6) i(7) i(8) ba sa bb sb]
      r d a b ba bb
    by simp
qed

section \<open>Loading a model\<close>

text \<open>
  A call of \<^verbatim>\<open>load_model\<close> that is not interrupted takes four steps. When the global already holds a
  handle the call returns it and constructs nothing.
\<close>

lemma run_call_cached:
  "model_global g = Some m \<Longrightarrow> run_call ctor g = (Returned (Some m), g)"
  by (simp add: run_call_def)

lemma run_call_first:
  "model_global g = None \<Longrightarrow> ctor (constructions g) = Inr m \<Longrightarrow>
   run_call ctor g
     = (Returned (Some m), g\<lparr>model_global := Some m, constructions := constructions g + 1\<rparr>)"
  by (simp add: run_call_def)

lemma run_call_failed:
  "model_global g = None \<Longrightarrow> ctor (constructions g) = Inl e \<Longrightarrow>
   run_call ctor g = (Raised e, g\<lparr>constructions := constructions g + 1\<rparr>)"
  by (simp add: run_call_def)

lemma run_calls_cached:
  "model_global g = Some m \<Longrightarrow> run_calls ctor n g = (replicate n (Returned (Some m)), g)"
  by (induction n) (simp_all add: run_call_cached)

text \<open>
  The step model agrees with \<^const>\<open>load_model\<close>, the function the masking code calls: an
  uninterrupted call answers what \<^const>\<open>load_model\<close> answers and leaves the same global.
\<close>

lemma run_call_is_load_model:
  "fst (run_call (\<lambda>k. YOLO env path) g)
     = (case fst (load_model env path (model_global g)) of
          Inl e \<Rightarrow> Raised e
        | Inr m \<Rightarrow> Returned (Some m))"
  "model_global (snd (run_call (\<lambda>k. YOLO env path) g)) = snd (load_model env path (model_global g))"
  by (auto simp: run_call_def load_model_def split: option.splits sum.splits)

text \<open>
  Calls that run one after another construct once: with the global set, every call returns
  the stored handle; with the global empty and a construction that succeeds, the first call
  constructs and stores the model and every call returns that handle.
\<close>

lemma sequential_calls_construct_once:
  "(model_global g = Some m \<longrightarrow>
      run_calls ctor n g = (replicate n (Returned (Some m)), g))
   \<and> (model_global g = None \<longrightarrow> ctor (constructions g) = Inr m \<longrightarrow>
      run_calls ctor (Suc n) g
        = (replicate (Suc n) (Returned (Some m)),
           g\<lparr>model_global := Some m, constructions := constructions g + 1\<rparr>))"
  by (simp add: run_calls_cached run_call_first)

subsection \<open>Calls that interleave\<close>

lemma constructed_iff:
  "constructed ctor g m \<longleftrightarrow> (\<exists>k<constructions g. ctor k = Inr m)"
  by (auto simp: constructed_def image_iff eq_commute [of "Inr m"])

lemma constructed_mono:
  "constructed ctor g m \<Longrightarrow> constructions g \<le> constructions g1 \<Longrightarrow> constructed ctor g1 m"
  unfolding constructed_iff by (meson less_le_trans)

lemma waiting_le:
  "(model_global g \<noteq> None \<longrightarrow> model_global g1 \<noteq> None) \<Longrightarrow> waiting g1 p \<le> waiting g p"
  by (cases p) auto

lemma pending_le:
  "(model_global g \<noteq> None \<longrightarrow> model_global g1 \<noteq> None) \<Longrightarrow> pending pcs g1 \<le> pending pcs g"
  unfolding pending_def by (rule sum_list_mono) (rule waiting_le)

lemma pending_update:
  assumes "t < length pcs"
  shows "pending (pcs[t := p]) g + waiting g (pcs ! t) = pending pcs g + waiting g p"
proof -
  have "waiting g (pcs ! t) \<le> sum_list (map (waiting g) pcs)"
    using assms by (simp add: member_le_sum_list)
  moreover have "sum_list ((map (waiting g) pcs)[t := waiting g p])
      = sum_list (map (waiting g) pcs) + waiting g p - (map (waiting g) pcs) ! t"
    using assms by (simp add: sum_list_update)
  ultimately show ?thesis
    using assms by (simp add: pending_def map_update)
qed

lemma pending_zero:
  "model_global g \<noteq> None \<Longrightarrow> AtConstruct \<notin> set pcs \<Longrightarrow> pending pcs g = 0"
proof (induction pcs)
  case Nil
  then show ?case by (simp add: pending_def)
next
  case (Cons p pcs)
  then show ?case by (cases p) (auto simp: pending_def)
qed

lemma thread_step_global:
  "thread_step ctor p g = (p', g1) \<Longrightarrow> model_global g \<noteq> None \<Longrightarrow> model_global g1 \<noteq> None"
  by (cases p) (auto split: if_splits sum.splits)

lemma thread_step_constructions:
  "thread_step ctor p g = (p', g1) \<Longrightarrow> constructions g \<le> constructions g1"
  by (cases p) (auto split: if_splits sum.splits)

lemma thread_step_pending:
  assumes "t < length pcs" and "thread_step ctor (pcs ! t) g = (p, g1)"
  shows "constructions g1 + pending (pcs[t := p]) g1 \<le> constructions g + pending pcs g"
proof -
  have le: "pending pcs g1 \<le> pending pcs g"
    using thread_step_global [OF assms(2)] by (intro pending_le) simp
  have up: "pending (pcs[t := p]) g1 + waiting g1 (pcs ! t) = pending pcs g1 + waiting g1 p"
    using assms(1) by (rule pending_update)
  show ?thesis
  proof (cases "pcs ! t")
    case AtTest
    then show ?thesis using assms(2) le up by (auto split: if_splits)
  next
    case AtConstruct
    then show ?thesis using assms(2) le up by (auto split: sum.splits)
  next
    case (AtAssign m)
    then show ?thesis using assms(2) le up by auto
  next
    case AtReturn
    then show ?thesis using assms(2) le up by auto
  next
    case (Returned r)
    then show ?thesis using assms(2) le up by auto
  next
    case (Raised e)
    then show ?thesis using assms(2) le up by auto
  qed
qed

lemma pc_consistent_mono:
  assumes "pc_consistent ctor g q" and "constructions g \<le> constructions g1"
    and "model_global g \<noteq> None \<longrightarrow> model_global g1 \<noteq> None"
  shows "pc_consistent ctor g1 q"
  using assms by (cases q) (auto intro: constructed_mono split: option.splits)

lemma thread_step_new_pc:
  assumes "thread_step ctor q g = (p, g1)" and "pc_consistent ctor g q"
    and "case model_global g of None \<Rightarrow> True | Some m \<Rightarrow> constructed ctor g m"
  shows "pc_consistent ctor g1 p
    \<and> (case model_global g1 of None \<Rightarrow> True | Some m \<Rightarrow> constructed ctor g1 m)"
proof (cases q)
  case AtConstruct
  then show ?thesis
    using assms by (auto simp: constructed_iff less_Suc_eq split: sum.splits option.splits)
qed (use assms in \<open>auto simp: constructed_iff split: if_splits option.splits\<close>)

lemma thread_step_consistent:
  assumes "t < length pcs" and "thread_step ctor (pcs ! t) g = (p, g1)"
    and "consistent ctor pcs g"
  shows "consistent ctor (pcs[t := p]) g1"
proof -
  have all: "\<forall>q\<in>set pcs. pc_consistent ctor g q"
    and glob: "case model_global g of None \<Rightarrow> True | Some m \<Rightarrow> constructed ctor g m"
    using assms(3) by (simp_all add: consistent_def list_all_iff)
  have old: "pc_consistent ctor g (pcs ! t)"
    using all assms(1) by simp
  have new: "pc_consistent ctor g1 p"
    and glob1: "case model_global g1 of None \<Rightarrow> True | Some m \<Rightarrow> constructed ctor g1 m"
    using thread_step_new_pc [OF assms(2) old glob] by simp_all
  have "\<forall>q\<in>set pcs. pc_consistent ctor g1 q"
    using all thread_step_constructions [OF assms(2)] thread_step_global [OF assms(2)]
    by (auto intro: pc_consistent_mono)
  then have "\<forall>q\<in>set (pcs[t := p]). pc_consistent ctor g1 q"
    using new set_update_subset_insert [of pcs t p] by auto
  then show ?thesis
    using glob1 by (simp add: consistent_def list_all_iff)
qed

lemma run_schedule_invariants:
  assumes "run_schedule ctor sch (pcs, g) = (pcs', g')"
  shows "constructions g \<le> constructions g'"
    and "constructions g' + pending pcs' g' \<le> constructions g + pending pcs g"
    and "model_global g \<noteq> None \<longrightarrow> model_global g' \<noteq> None"
    and "consistent ctor pcs g \<longrightarrow> consistent ctor pcs' g'"
  using assms
proof (induction sch arbitrary: pcs g)
  case Nil
  { case 1 then show ?case by simp }
  { case 2 then show ?case by simp }
  { case 3 then show ?case by simp }
  { case 4 then show ?case by simp }
next
  case (Cons t sch)
  { case 1
    show ?case
    proof (cases "t < length pcs")
      case True
      obtain p g1 where s: "thread_step ctor (pcs ! t) g = (p, g1)" by (cases "thread_step ctor (pcs ! t) g")
      with True 1 have r: "run_schedule ctor sch (pcs[t := p], g1) = (pcs', g')" by simp
      show ?thesis using Cons(1) [OF r] thread_step_constructions [OF s] by simp
    next
      case False
      with 1 have "run_schedule ctor sch (pcs, g) = (pcs', g')" by simp
      then show ?thesis by (rule Cons(1))
    qed }
  { case 2
    show ?case
    proof (cases "t < length pcs")
      case True
      obtain p g1 where s: "thread_step ctor (pcs ! t) g = (p, g1)" by (cases "thread_step ctor (pcs ! t) g")
      with True 2 have r: "run_schedule ctor sch (pcs[t := p], g1) = (pcs', g')" by simp
      show ?thesis using Cons(2) [OF r] thread_step_pending [OF True s] by simp
    next
      case False
      with 2 have "run_schedule ctor sch (pcs, g) = (pcs', g')" by simp
      then show ?thesis by (rule Cons(2))
    qed }
  { case 3
    show ?case
    proof (cases "t < length pcs")
      case True
      obtain p g1 where s: "thread_step ctor (pcs ! t) g = (p, g1)" by (cases "thread_step ctor (pcs ! t) g")
      with True 3 have r: "run_schedule ctor sch (pcs[t := p], g1) = (pcs', g')" by simp
      show ?thesis using Cons(3) [OF r] thread_step_global [OF s] by blast
    next
      case False
      with 3 have "run_schedule ctor sch (pcs, g) = (pcs', g')" by simp
      then show ?thesis by (rule Cons(3))
    qed }
  { case 4
    show ?case
    proof (cases "t < length pcs")
      case True
      obtain p g1 where s: "thread_step ctor (pcs ! t) g = (p, g1)" by (cases "thread_step ctor (pcs ! t) g")
      with True 4 have r: "run_schedule ctor sch (pcs[t := p], g1) = (pcs', g')" by simp
      show ?thesis using Cons(4) [OF r] thread_step_consistent [OF True s] by blast
    next
      case False
      with 4 have "run_schedule ctor sch (pcs, g) = (pcs', g')" by simp
      then show ?thesis by (rule Cons(4))
    qed }
qed

lemma consistent_returned:
  assumes "consistent ctor pcs g" and "Returned r \<in> set pcs"
  shows "\<exists>m k. r = Some m \<and> k < constructions g \<and> ctor k = Inr m"
proof -
  have "pc_consistent ctor g (Returned r)"
    using assms by (auto simp: consistent_def list_all_iff)
  then show ?thesis
    by (cases r) (auto simp: constructed_iff)
qed

lemma fresh_calls_consistent:
  "model_global g = None \<Longrightarrow> consistent ctor (replicate n AtTest) g"
  by (simp add: consistent_def list_all_iff)

text \<open>
  C9 (as amended).  Under concurrent access to \<^verbatim>\<open>load_model\<close> for one document type, whatever
  the interleaving of the calls (from any state, along any schedule):
  the number of constructor calls never decreases, and it grows by at most the number of
  calls that were pending at the start, that is, calls already at the constructor or calls
  that make the test while the global is still \<open>None\<close>; a global that is set stays set; once
  the global is set and no call is at the constructor, nothing is constructed again; and no
  call observes a partially constructed handle: from a consistent state (a fresh process
  with all calls at their first statement is one), every call that has returned has
  returned a handle that a completed constructor call produced.
\<close>

theorem load_model_any_interleaving:
  assumes "run_schedule ctor sch (pcs, g) = (pcs', g')"
  shows "constructions g \<le> constructions g'
    \<and> constructions g' + pending pcs' g' \<le> constructions g + pending pcs g
    \<and> (model_global g \<noteq> None \<longrightarrow> model_global g' \<noteq> None)
    \<and> (model_global g \<noteq> None \<longrightarrow> AtConstruct \<notin> set pcs \<longrightarrow> constructions g' = constructions g)
    \<and> (consistent ctor pcs g \<longrightarrow>
         consistent ctor pcs' g'
         \<and> (\<forall>r. Returned r \<in> set pcs' \<longrightarrow>
               (\<exists>m k. r = Some m \<and> k < constructions g' \<and> ctor k = Inr m)))"
proof -
  note inv = run_schedule_invariants [OF assms]
  have "constructions g' = constructions g" if "model_global g \<noteq> None" "AtConstruct \<notin> set pcs"
    using inv(1) inv(2) pending_zero [OF that] by simp
  moreover have "\<forall>r. Returned r \<in> set pcs' \<longrightarrow>
       (\<exists>m k. r = Some m \<and> k < constructions g' \<and> ctor k = Inr m)" if "consistent ctor pcs g"
    using inv(4) that consistent_returned [of ctor pcs' g'] by blast
  ultimately show ?thesis
    using inv by blast
qed

text \<open>
  Three calls on a fresh process, the third testing after the first has assigned: two
  constructions for three pending calls.  Then three calls on a process that has loaded the
  model: none constructs.
\<close>

theorem load_model_any_interleaving_witness:
  "run_schedule fresh_instance [0, 1, 0, 0, 2, 1, 2, 1, 1, 0] ([AtTest, AtTest, AtTest], unloaded)
     = ([Returned (Some 1), Returned (Some 1), Returned (Some 0)],
        \<lparr>model_global = Some 1, constructions = 2\<rparr>)
   \<and> consistent fresh_instance [AtTest, AtTest, AtTest] unloaded
   \<and> pending [AtTest, AtTest, AtTest] unloaded = 3
   \<and> consistent fresh_instance [Returned (Some 1), Returned (Some 1), Returned (Some 0)]
        \<lparr>model_global = Some 1, constructions = 2\<rparr>
   \<and> run_schedule fresh_instance [1, 2, 1, 2, 0, 1, 2] ([Returned (Some 0), AtTest, AtTest], loaded_once)
     = ([Returned (Some 0), Returned (Some 0), Returned (Some 0)], loaded_once)
   \<and> model_global loaded_once \<noteq> None
   \<and> AtConstruct \<notin> set [Returned (Some 0), AtTest, AtTest]
   \<and> constructions (snd (run_schedule fresh_instance [1, 2, 1, 2, 0, 1, 2]
        ([Returned (Some 0), AtTest, AtTest], loaded_once))) = constructions loaded_once"
proof -
  have a: "run_schedule fresh_instance [0, 1, 0, 0, 2, 1, 2, 1, 1, 0] ([AtTest, AtTest, AtTest], unloaded)
     = ([Returned (Some 1), Returned (Some 1), Returned (Some 0)],
        \<lparr>model_global = Some 1, constructions = 2\<rparr>)"
    by (simp add: unloaded_def fresh_instance_def)
  have b: "consistent fresh_instance [AtTest, AtTest, AtTest] unloaded"
    by (simp add: consistent_def unloaded_def)
  have c: "pending [AtTest, AtTest, AtTest] unloaded = 3"
    by (simp add: pending_def unloaded_def)
  have d: "run_schedule fresh_instance [1, 2, 1, 2, 0, 1, 2] ([Returned (Some 0), AtTest, AtTest], loaded_once)
     = ([Returned (Some 0), Returned (Some 0), Returned (Some 0)], loaded_once)"
    by (simp add: loaded_once_def fresh_instance_def)
  have e: "model_global loaded_once \<noteq> None" "AtConstruct \<notin> set [Returned (Some 0), AtTest, AtTest]"
    by (simp_all add: loaded_once_def)
  show ?thesis
    using load_model_any_interleaving [OF a] load_model_any_interleaving [OF d] a b c d e
    by simp
qed

text \<open>
  C9 as stated fails.  \<^verbatim>\<open>load_model\<close> tests the global and assigns it without holding
  a lock. Two requests that both test \<^verbatim>\<open>model is None\<close> before either has assigned each construct a
  model: in the schedule below the threads alternate step by step, the constructor runs twice
  (instances \<open>0\<close> and \<open>1\<close>), and the second assignment replaces the first.
\<close>

theorem concurrent_first_access_counterexample:
  "run_schedule fresh_instance [0, 1, 0, 1, 0, 1, 0, 1] ([AtTest, AtTest], unloaded)
     = ([Returned (Some 1), Returned (Some 1)], \<lparr>model_global = Some 1, constructions = 2\<rparr>)"
  by (simp add: unloaded_def fresh_instance_def)

end
